theory Spec2Isabelle
  imports Main "HOL-Library.Multiset" "HOL-Library.Word"
begin

section \<open>Dashboard: the active plugin of an observable (EditObservableDialog.vue)\<close>

text \<open>
  The dialog reads the store's observables. A \<open>Plugin\<close> of \<open>@/types\<close> is used through its
  fields \<open>name\<close> and \<open>enabled\<close>, a \<open>Stream\<close> through \<open>uri\<close> and its ordered \<open>plugins\<close>.
\<close>

record Plugin =
  name :: string
  enabled :: bool

record Stream =
  uri :: string
  plugins :: "Plugin list"

text \<open>
  \<^verbatim>\<open>const stream = this.App.observables.find(o => o.uri === this.target);
  return stream ? stream.plugins : [];\<close>
\<close>

definition Plugins :: "Stream list \<Rightarrow> string \<Rightarrow> Plugin list" where
  "Plugins observables target =
     (case find (\<lambda>ob. uri ob = target) observables of
        Some stream \<Rightarrow> plugins stream
      | None \<Rightarrow> [])"

text \<open>
  \<^verbatim>\<open>return this.Plugins.find(x => x.enabled) || null;\<close>
  \<open>None\<close> is JavaScript's \<open>null\<close>; a found plugin is an object, hence truthy.
\<close>

definition ActivePlugin :: "Stream list \<Rightarrow> string \<Rightarrow> Plugin option" where
  "ActivePlugin observables target = find (\<lambda>x. enabled x) (Plugins observables target)"

section \<open>Backend utilities (Common/Util.ts): calls that ignore exceptions\<close>

text \<open>
  A thrown JavaScript value is an \<open>exn\<close>; a call completes as \<open>exn + 'a\<close>, with \<open>Inl\<close> for
  a throw. \<open>ReturnType<Fn> | null\<close> is \<open>'a option\<close>, with \<open>None\<close> for \<open>null\<close>.
\<close>

datatype exn = Exn string

text \<open>
  \<^verbatim>\<open>try { return fn(...args); } catch (e) { return null; }\<close>
\<close>

definition IE :: "('args \<Rightarrow> exn + 'a) \<Rightarrow> 'args \<Rightarrow> exn + 'a option" where
  "IE fn args = (case fn args of Inr v \<Rightarrow> Inr (Some v) | Inl e \<Rightarrow> Inr None)"

text \<open>
  \<^verbatim>\<open>try { return fn.bind(context)(...args); } catch (e) { return null; }\<close>
  The method receives its \<open>this\<close> as a first argument.
\<close>

definition IEM :: "('ctx \<Rightarrow> 'args \<Rightarrow> exn + 'a) \<Rightarrow> 'ctx \<Rightarrow> 'args \<Rightarrow> exn + 'a option" where
  "IEM fn context args = (case fn context args of Inr v \<Rightarrow> Inr (Some v) | Inl e \<Rightarrow> Inr None)"

text \<open>
  A promise is settled or still pending. The value an async function's callee hands to
  \<open>await\<close> is a plain value or a promise; awaiting a plain value yields it, awaiting a
  promise yields its settlement, and a promise that never settles keeps the caller pending.
\<close>

datatype 'a promise = Fulfilled 'a | Rejected exn | Pending

datatype 'a awaitable = Plain 'a | Thenable "'a promise"

text \<open>
  \<^verbatim>\<open>try { return await fn(...args); } catch (e) { return null; }\<close>
\<close>

definition AIE :: "('args \<Rightarrow> exn + 'a awaitable) \<Rightarrow> 'args \<Rightarrow> 'a option promise" where
  "AIE fn args =
     (case fn args of
        Inl e \<Rightarrow> Fulfilled None
      | Inr (Plain v) \<Rightarrow> Fulfilled (Some v)
      | Inr (Thenable (Fulfilled v)) \<Rightarrow> Fulfilled (Some v)
      | Inr (Thenable (Rejected e)) \<Rightarrow> Fulfilled None
      | Inr (Thenable Pending) \<Rightarrow> Pending)"

section \<open>Backend utilities (Common/Util.ts): the size of a folder\<close>

text \<open>
  \<^verbatim>\<open>return new Promise((resolve, reject) => {
      getFolderSize(path, (err, size) => err ? reject(err) : resolve(size)); });\<close>
  The library \<open>get-folder-size\<close> is a parameter: what it passes to the callback for a path,
  an error (or \<open>null\<close>, here \<open>None\<close>) and a size.
\<close>

definition GetFolderSize :: "(string \<Rightarrow> exn option \<times> nat) \<Rightarrow> string \<Rightarrow> nat promise" where
  "GetFolderSize getFolderSize path =
     (case getFolderSize path of
        (Some err, sz) \<Rightarrow> Rejected err
      | (None, sz) \<Rightarrow> Fulfilled sz)"

section \<open>Resource monitor (Services/SystemResourcesMonitor, not among the sources)\<close>

record SystemResourcesMonitor =
  sample :: "nat option"
  published :: "nat list"
  monitor_log :: "string list"

text \<open>
  Modelled from the spec: the polling step of \<open>SystemResourcesMonitor\<close>, whose source is
  missing. Section 4.6: the monitor samples disk usage under the archive root and publishes
  an update event; a failure to sample is logged and the previous sample is retained; it
  never crashes the polling loop. The step returns \<open>exn + monitor\<close> so that a crash of the
  loop would be a value \<open>Inl\<close>.
\<close>

definition poll :: "(string \<Rightarrow> exn option \<times> nat) \<Rightarrow> string \<Rightarrow> SystemResourcesMonitor
    \<Rightarrow> exn + SystemResourcesMonitor" where
  "poll getFolderSize root m =
     (case GetFolderSize getFolderSize root of
        Fulfilled sz \<Rightarrow> Inr (m\<lparr>sample := Some sz, published := published m @ [sz]\<rparr>)
      | Rejected (Exn msg) \<Rightarrow> Inr (m\<lparr>monitor_log := monitor_log m @ [msg]\<rparr>)
      | Pending \<Rightarrow> Inr m)"

text \<open>
  Modelled from the spec: the polling loop, one step per timer tick; the disk answers each
  tick on its own, so the loop runs over the list of the library's answers.
\<close>

fun poll_loop :: "(string \<Rightarrow> exn option \<times> nat) list \<Rightarrow> string \<Rightarrow> SystemResourcesMonitor
    \<Rightarrow> exn + SystemResourcesMonitor" where
  "poll_loop [] root m = Inr m"
| "poll_loop (disk # disks) root m =
     (case poll disk root m of
        Inl e \<Rightarrow> Inl e
      | Inr m' \<Rightarrow> poll_loop disks root m')"

text \<open>
  What the loop leaves: the sample of the last answer without an error (the starting sample
  when there is none), and one log entry for each answer with an error.
\<close>

fun last_sample :: "(string \<Rightarrow> exn option \<times> nat) list \<Rightarrow> string \<Rightarrow> nat option \<Rightarrow> nat option" where
  "last_sample [] root s = s"
| "last_sample (disk # disks) root s =
     last_sample disks root (case disk root of (None, sz) \<Rightarrow> Some sz | (Some e, sz) \<Rightarrow> s)"

section \<open>Recording service (Services/RecordingService, not among the sources)\<close>

text \<open>A recording session is used through its \<open>label\<close>.\<close>

record RecordInfo =
  label :: string

datatype recorder_event = SessionStopped string

record RecordingService =
  Records :: "RecordInfo list"
  events :: "recorder_event list"

text \<open>
  Modelled from the spec: \<open>RecordingService.StopRecording\<close>, whose source is missing.
  Section 4.3: \<open>StopRecording(label)\<close> is idempotent, a no-op and no error if the session is
  already stopped; a stop releases the session slot. A session with the label is taken out
  of \<open>Records\<close> and one stop event is emitted; without such a session nothing happens. The
  result is \<open>exn + service\<close> so that an error would be a value \<open>Inl\<close>.
\<close>

definition StopRecording :: "string \<Rightarrow> RecordingService \<Rightarrow> exn + RecordingService" where
  "StopRecording l r =
     (if l \<in> set (map label (Records r))
      then Inr (r\<lparr>Records := filter (\<lambda>x. label x \<noteq> l) (Records r),
                  events := events r @ [SessionStopped l]\<rparr>)
      else Inr r)"

section \<open>The application (the first unnamed source file): shutdown\<close>

text \<open>
  The state of \<open>App.Shutdown\<close>: the labels \<open>StopRecording\<close> was called with, whether the
  plugin manager was stopped, the counter \<open>awaitedRecordings\<close> of the closure, whether the
  handler of \<open>CompleteEvent\<close> is installed, the log, and the code of \<open>process.exit\<close> once
  it was called.
\<close>

record shutdown_state =
  stop_requested :: "string list"
  plugin_manager_stopped :: bool
  awaitedRecordings :: int
  handler_installed :: bool
  shutdown_log :: "string list"
  exit_code :: "int option"

text \<open>
  \<^verbatim>\<open>Logger.Get.Log('Shutting down. Waiting for recorder stops.');
  let awaitedRecordings = this.recorder.Records.length;
  if (!awaitedRecordings) { resolve(); return; }
  this.pluginManager.Stop();
  this.recorder.Records.map(r => r.label).forEach(l => this.recorder.StopRecording(l));
  this.recorderListener.CompleteEvent.On(() => { if (--awaitedRecordings === 0) resolve(); });\<close>
  and, once the promise is resolved, \<^verbatim>\<open>Logger.Get.Log('Exit'); process.exit(0);\<close>
  The argument is the recorder's \<open>Records\<close> when the signal arrives.
\<close>

definition Shutdown :: "RecordInfo list \<Rightarrow> shutdown_state" where
  "Shutdown records =
     (if int (length records) = 0
      then \<lparr>stop_requested = [], plugin_manager_stopped = False, awaitedRecordings = 0,
            handler_installed = False,
            shutdown_log = [''Shutting down. Waiting for recorder stops.'', ''Exit''],
            exit_code = Some 0\<rparr>
      else \<lparr>stop_requested = map label records, plugin_manager_stopped = True,
            awaitedRecordings = int (length records), handler_installed = True,
            shutdown_log = [''Shutting down. Waiting for recorder stops.''],
            exit_code = None\<rparr>)"

text \<open>
  One stop-completion notification, for the session with the given label. The handler
  does not look at the session. Nothing runs after \<open>process.exit\<close>.
\<close>

definition CompleteEvent :: "string \<Rightarrow> shutdown_state \<Rightarrow> shutdown_state" where
  "CompleteEvent l s =
     (if handler_installed s \<and> exit_code s = None
      then (if awaitedRecordings s - 1 = 0
            then s\<lparr>awaitedRecordings := awaitedRecordings s - 1,
                   shutdown_log := shutdown_log s @ [''Exit''], exit_code := Some 0\<rparr>
            else s\<lparr>awaitedRecordings := awaitedRecordings s - 1\<rparr>)
      else s)"

text \<open>The notifications arrive one after the other.\<close>

definition drain :: "string list \<Rightarrow> shutdown_state \<Rightarrow> shutdown_state" where
  "drain ls s = fold CompleteEvent ls s"

section \<open>The application: the quota arbiters of the plugin manager controller\<close>

text \<open>The result of \<open>FetchSettings\<close>, read through its three quotas.\<close>

record Settings =
  storageQuota :: int
  instanceQuota :: int
  downloadSpeedQuota :: int

text \<open>An arbiter object: its class and the value of its \<open>Quota\<close>.\<close>

datatype arbiter = StorageQuota int | InstanceQuota int | DownloadSpeedQuota int

text \<open>
  The controller and the listener of the plugin manager, as far as the set-up writes them:
  the arbiters by identifier, and the arbiters whose \<open>StreamFilter\<close> intercepts events.
\<close>

record 'id controller_state =
  arbiters :: "'id \<rightharpoonup> arbiter"
  interceptors :: "arbiter list"

text \<open>
  Modelled from the spec: \<open>PluginManagerController.AddArbiter\<close>, whose source is missing.
  Section 4.5: the controller is a registry of active arbiters keyed by quota kind, with
  the operations \<open>AddArbiter(arbiter, kind)\<close> and \<open>RemoveArbiter(kind)\<close>.
\<close>

definition AddArbiter :: "arbiter \<Rightarrow> 'id \<Rightarrow> 'id controller_state \<Rightarrow> 'id controller_state" where
  "AddArbiter a k c = c\<lparr>arbiters := (arbiters c)(k \<mapsto> a)\<rparr>"

definition AddInterceptor :: "arbiter \<Rightarrow> 'id controller_state \<Rightarrow> 'id controller_state" where
  "AddInterceptor a c = c\<lparr>interceptors := interceptors c @ [a]\<rparr>"

text \<open>
  \<open>SetupPluginManagerController\<close>. The identifiers \<open>STORAGE_QUOTA_ID\<close>,
  \<open>INSTANCE_QUOTA_ID\<close> and \<open>DOWNLOAD_SPEED_QUOTA\<close> of \<open>Quotas/Constants\<close> are parameters.
\<close>

definition SetupPluginManagerController ::
    "'id \<Rightarrow> 'id \<Rightarrow> 'id \<Rightarrow> Settings \<Rightarrow> 'id controller_state \<Rightarrow> 'id controller_state" where
  "SetupPluginManagerController STORAGE_QUOTA_ID INSTANCE_QUOTA_ID DOWNLOAD_SPEED_QUOTA settings c =
     (let c1 = (if storageQuota settings > 0
                then AddArbiter (StorageQuota (storageQuota settings)) STORAGE_QUOTA_ID c
                else c);
          c2 = (if instanceQuota settings > 0
                then AddArbiter (InstanceQuota (instanceQuota settings)) INSTANCE_QUOTA_ID c1
                else c1)
      in (if downloadSpeedQuota settings > 0
          then AddArbiter (DownloadSpeedQuota (downloadSpeedQuota settings)) DOWNLOAD_SPEED_QUOTA
                 (AddInterceptor (DownloadSpeedQuota (downloadSpeedQuota settings)) c2)
          else c2))"

text \<open>The controller of a fresh \<open>App\<close>: no arbiter, no interceptor.\<close>

definition new_controller :: "'id controller_state" where
  "new_controller = \<lparr>arbiters = Map.empty, interceptors = []\<rparr>"

section \<open>The application: start-up\<close>

text \<open>
  The paths \<open>DATA_FOLDER\<close>, \<open>ARCHIVE_FOLDER\<close>, \<open>THUMBNAIL_FOLDER\<close> and \<open>DB_LOCATION\<close> of
  \<open>./Constants\<close> are parameters.
\<close>

record Constants =
  DATA_FOLDER :: string
  ARCHIVE_FOLDER :: string
  THUMBNAIL_FOLDER :: string
  DB_LOCATION :: string

text \<open>
  The file system as Node's \<open>fs\<close> shows it to the start-up: the paths that exist, and the
  paths that \<open>mkdirSync\<close> cannot create (no permission, no parent). \<open>mkdirSync\<close> throws on
  a path that exists, too.
\<close>

record filesystem =
  entries :: "string list"
  refused :: "string list"

definition existsSync :: "filesystem \<Rightarrow> string \<Rightarrow> bool" where
  "existsSync fs path \<longleftrightarrow> path \<in> set (entries fs)"

definition mkdirSync :: "string \<Rightarrow> filesystem \<Rightarrow> exn + filesystem" where
  "mkdirSync path fs =
     (if path \<in> set (entries fs) then Inl (Exn ''EEXIST'')
      else if path \<in> set (refused fs) then Inl (Exn ''EACCES'')
      else Inr (fs\<lparr>entries := path # entries fs\<rparr>))"

text \<open>
  \<^verbatim>\<open>if (!fs.existsSync(ARCHIVE_FOLDER)) {
      fs.mkdirSync(ARCHIVE_FOLDER); fs.mkdirSync(THUMBNAIL_FOLDER);
  } else if (!fs.existsSync(THUMBNAIL_FOLDER)) { fs.mkdirSync(THUMBNAIL_FOLDER); }\<close>
\<close>

definition PrepareFileSystem :: "Constants \<Rightarrow> filesystem \<Rightarrow> exn + filesystem" where
  "PrepareFileSystem C fs =
     (if \<not> existsSync fs (ARCHIVE_FOLDER C) then
        (case mkdirSync (ARCHIVE_FOLDER C) fs of
           Inl e \<Rightarrow> Inl e
         | Inr fs1 \<Rightarrow> mkdirSync (THUMBNAIL_FOLDER C) fs1)
      else if \<not> existsSync fs (THUMBNAIL_FOLDER C) then mkdirSync (THUMBNAIL_FOLDER C) fs
      else Inr fs)"

text \<open>
  A plugin of the registry (\<open>Plugin\<close> of \<open>./Common/Types\<close>) has an identifier besides its
  name and its \<open>enabled\<close> flag; its \<open>service\<close> is not read here. A row of \<open>FetchPlugins\<close> has
  the same three fields.
\<close>

record ServerPlugin = Plugin +
  plugin_id :: int

text \<open>A row of \<open>FetchObservables\<close>: its \<open>url\<close>, \<open>lastSeen\<close> and \<open>plugins\<close>, the names.\<close>

record ObservableRow =
  obs_url :: string
  lastSeen :: int
  plugin_names :: "string list"

text \<open>An \<open>ObservableStream\<close>: \<open>url\<close>, \<open>lastSeen\<close> and \<open>plugins\<close>, the plugins found.\<close>

record ObservableStream =
  stream_url :: string
  stream_lastSeen :: int
  stream_plugins :: "ServerPlugin list"

text \<open>An \<open>ArchiveRecord\<close>, as far as the loading writes it: \<open>filename\<close>, \<open>locked\<close>, \<open>tags\<close>.\<close>

record ArchiveRecord =
  archive_filename :: string
  locked :: bool
  tags :: "string set"

text \<open>
  The storage (\<open>SqliteAdapter\<close>, not among the sources) as the start-up reads it: what
  \<open>IsInitialized\<close> and its \<open>Fetch\<close> methods do when called, return a value or throw.
\<close>

record Storage =
  IsInitialized :: "exn + bool"
  FetchPlugins :: "exn + ServerPlugin list"
  FetchObservables :: "exn + ObservableRow list"
  FetchArchiveRecords :: "exn + string list"
  FetchArchiveTags :: "exn + (string \<times> string) list"

text \<open>
  What the calls of \<open>Run\<close> on code that is not among the sources do, each a parameter:
  \<^item> \<open>Sqlite3\<close>: \<^verbatim>\<open>new Sqlite3(DB_LOCATION)\<close> with \<^verbatim>\<open>new SqliteAdapter(this.db)\<close>, the storage opened
    at a path or a throw;
  \<^item> \<open>Initialize\<close>: \<open>storage.Initialize(names)\<close>, the storage afterwards or a throw;
  \<^item> \<open>new_Settings_SqliteWriter\<close>: \<^verbatim>\<open>new Settings(this.storage)\<close> and
    \<^verbatim>\<open>Logger.Get.AddWriter(new SqliteWriter(this.storage))\<close>, the first throw if there is one;
  \<^item> \<open>new_NotificationCenter\<close>: \<^verbatim>\<open>new NotificationCenter(this.storage)\<close>;
  \<^item> \<open>start_services\<close>: the calls after \<open>LoadData\<close>, from \<open>process.on\<close> to
    \<open>server.listen\<close>.
\<close>

record Collaborators =
  Sqlite3 :: "string \<Rightarrow> exn + Storage"
  Initialize :: "string list \<Rightarrow> Storage \<Rightarrow> exn + Storage"
  new_Settings_SqliteWriter :: "exn option"
  new_NotificationCenter :: "exn option"
  start_services :: "exn option"

text \<open>
  The application: the file system it works on, its \<open>storage\<close> (assigned by \<open>Run\<close> before
  anything reads it), the plugins of the plugin manager in their order, the plugin identifiers handed to the stream dispatcher, the map
  \<open>observables\<close>, the archive, the log, and whether \<open>LoadData\<close> has run and the server
  listens.
\<close>

record App =
  files :: filesystem
  storage :: Storage
  registry :: "ServerPlugin list"
  linkedStreams :: "int list"
  observables :: "string \<rightharpoonup> ObservableStream"
  archive :: "ArchiveRecord list"
  app_log :: "string list"
  loaded :: bool
  listening :: bool

definition IsDataMounted :: "Constants \<Rightarrow> App \<Rightarrow> bool" where
  "IsDataMounted C app \<longleftrightarrow> existsSync (files app) (DATA_FOLDER C)"

text \<open>
  \<^verbatim>\<open>this.storage.Initialize(this.pluginManager.Plugins.map(x => x.name));\<close>
\<close>

definition InitializeDb :: "Collaborators \<Rightarrow> App \<Rightarrow> exn + App" where
  "InitializeDb K app =
     (case Initialize K (map name (registry app)) (storage app) of
        Inl e \<Rightarrow> Inl e
      | Inr db \<Rightarrow> Inr (app\<lparr>storage := db\<rparr>))"

text \<open>
  Modelled from the spec: \<open>PluginManager.FindPlugin\<close>, whose source is missing. Section
  4.1: \<open>Find(name)\<close> returns the plugin of that name or none.
\<close>

definition FindPlugin :: "string \<Rightarrow> ServerPlugin list \<Rightarrow> ServerPlugin option" where
  "FindPlugin n reg = find (\<lambda>p. name p = n) reg"

text \<open>
  Modelled from the spec: \<open>PluginManager.ReorderPlugins\<close>, whose source is missing. Section
  4.1: the listed plugins come in the order of the list, the plugins not listed keep their
  relative order after the listed ones.
\<close>

definition ReorderPlugins :: "int list \<Rightarrow> ServerPlugin list \<Rightarrow> ServerPlugin list" where
  "ReorderPlugins ids reg =
     concat (map (\<lambda>i. filter (\<lambda>p. plugin_id p = i) reg) (remdups ids))
     @ filter (\<lambda>p. plugin_id p \<notin> set ids) reg"

text \<open>
  The first loop of \<open>LoadData\<close>, for one row \<open>x\<close>:
  \<^verbatim>\<open>const p = this.pluginManager.FindPlugin(x.name);
  if (p === null) { return; }
  p.id = x.id; p.enabled = x.enabled;
  const observables = new Set<string>();
  p.service.SetObservables(observables);
  this.linkedStreams.AddPlugin(p.id, observables);\<close>
  The assignments change the plugin found, in its place in the registry.
\<close>

fun set_plugin_state :: "ServerPlugin \<Rightarrow> ServerPlugin list \<Rightarrow> ServerPlugin list" where
  "set_plugin_state x [] = []"
| "set_plugin_state x (p # ps) =
     (if name p = name x then p\<lparr>plugin_id := plugin_id x, enabled := enabled x\<rparr> # ps
      else p # set_plugin_state x ps)"

definition load_plugin :: "ServerPlugin \<Rightarrow> App \<Rightarrow> App" where
  "load_plugin x app =
     (case FindPlugin (name x) (registry app) of
        None \<Rightarrow> app
      | Some p \<Rightarrow> app\<lparr>registry := set_plugin_state x (registry app),
                       linkedStreams := linkedStreams app @ [plugin_id x]\<rparr>)"

text \<open>
  The inner loop over the plugin names of an observable: the plugins found, or the first
  name without a plugin.
  \<^verbatim>\<open>for (const name of x.plugins) {
      const plugin = this.pluginManager.FindPlugin(name);
      if (plugin === null) { Logger.Get.Log(`${x.url} has missing plugin '${name}'`); return; }
      plugins.push(plugin);
  }\<close>
\<close>

fun find_plugins :: "string list \<Rightarrow> ServerPlugin list \<Rightarrow> string + ServerPlugin list" where
  "find_plugins [] reg = Inr []"
| "find_plugins (n # ns) reg =
     (case FindPlugin n reg of
        None \<Rightarrow> Inl n
      | Some p \<Rightarrow> (case find_plugins ns reg of Inl m \<Rightarrow> Inl m | Inr ps \<Rightarrow> Inr (p # ps)))"

text \<open>
  The second loop, for one row \<open>x\<close>: a missing plugin is logged and the row is left,
  otherwise
  \<^verbatim>\<open>this.observables.set(x.url, { url: x.url, lastSeen: x.lastSeen, plugins });\<close>
\<close>

definition load_observable :: "ObservableRow \<Rightarrow> App \<Rightarrow> App" where
  "load_observable x app =
     (case find_plugins (plugin_names x) (registry app) of
        Inl n \<Rightarrow> app\<lparr>app_log := app_log app @ [obs_url x @ '' has missing plugin '' @ [CHR 0x27] @ n @ [CHR 0x27]]\<rparr>
      | Inr ps \<Rightarrow>
          app\<lparr>observables := (observables app)(obs_url x \<mapsto>
                \<lparr>stream_url = obs_url x, stream_lastSeen = lastSeen x, stream_plugins = ps\<rparr>)\<rparr>)"

text \<open>
  \<^verbatim>\<open>this.storage.FetchArchiveTags()
      .forEach(x => this.archive.find(y => y.filename === x.filename)?.tags.add(x.tag));\<close>
\<close>

fun add_tag :: "string \<times> string \<Rightarrow> ArchiveRecord list \<Rightarrow> ArchiveRecord list" where
  "add_tag x [] = []"
| "add_tag x (y # ys) =
     (if archive_filename y = fst x then y\<lparr>tags := insert (snd x) (tags y)\<rparr> # ys else y # add_tag x ys)"

text \<open>
  \<open>LoadData\<close>: the plugins, their order, the observables, the archive and its tags. A
  \<open>Fetch\<close> call that throws ends \<open>LoadData\<close> with the exception.
\<close>

definition LoadData :: "App \<Rightarrow> exn + App" where
  "LoadData app =
     (case FetchPlugins (storage app) of
        Inl e \<Rightarrow> Inl e
      | Inr pluginState \<Rightarrow>
          (let app1 = fold load_plugin pluginState app;
               app2 = app1\<lparr>registry :=
                        ReorderPlugins (map plugin_id pluginState) (registry app1)\<rparr>
           in case FetchObservables (storage app2) of
                Inl e \<Rightarrow> Inl e
              | Inr rows \<Rightarrow>
                  (let app3 = fold load_observable rows app2
                   in case FetchArchiveRecords (storage app3) of
                        Inl e \<Rightarrow> Inl e
                      | Inr records \<Rightarrow>
                          (let app4 = app3\<lparr>archive :=
                                   map (\<lambda>f. \<lparr>archive_filename = f, locked = False, tags = {}\<rparr>)
                                     records\<rparr>
                           in case FetchArchiveTags (storage app4) of
                                Inl e \<Rightarrow> Inl e
                              | Inr tag_rows \<Rightarrow>
                                  Inr (app4\<lparr>archive := fold add_tag tag_rows (archive app4),
                                            loaded := True\<rparr>)))))"

text \<open>
  \<open>Run\<close> ends the process or returns with the server listening. The process ends in
  \<open>process.exit(code)\<close>, or in an exception that nothing catches: \<open>Run\<close> has one \<open>try\<close>,
  around \<open>PrepareFileSystem\<close>, and Node ends a process with exit code 1 on an uncaught
  exception.
\<close>

datatype outcome = Exit int App | Serving App

definition uncaught :: "exn \<Rightarrow> App \<Rightarrow> outcome" where
  "uncaught e app = Exit 1 app"

text \<open>
  \<^verbatim>\<open>if (!this.IsDataMounted()) { Logger.Get.Log(...); process.exit(1); }
  this.db = new Sqlite3(DB_LOCATION); this.storage = new SqliteAdapter(this.db);
  if (!this.storage.IsInitialized()) { Logger.Get.Log(...); this.InitializeDb(); }
  this.settings = new Settings(this.storage);
  Logger.Get.AddWriter(new SqliteWriter(this.storage));
  try { this.PrepareFileSystem(); }
  catch (e) { Logger.Get.Log(`Preparing filesystem error. ${e}`); process.exit(1); }
  this.notificationCenter = new NotificationCenter(this.storage);
  this.LoadData();
  process.on('SIGTERM', ...); ... this.server.listen(C.Port);\<close>
\<close>

definition Run :: "Collaborators \<Rightarrow> Constants \<Rightarrow> App \<Rightarrow> outcome" where
  "Run K C app =
     (if \<not> IsDataMounted C app
      then Exit 1 (app\<lparr>app_log := app_log app
              @ [[CHR 0x27] @ ''/app/data'' @ [CHR 0x27] @ '' folder doesn'' @ [CHR 0x27]
                 @ ''t exist. Maybe forgot to mount it'']\<rparr>)
      else
        (case Sqlite3 K (DB_LOCATION C) of
           Inl e \<Rightarrow> uncaught e app
         | Inr db \<Rightarrow>
        (case IsInitialized db of
           Inl e \<Rightarrow> uncaught e (app\<lparr>storage := db\<rparr>)
         | Inr initialized \<Rightarrow>
        (case (if \<not> initialized
               then InitializeDb K (app\<lparr>storage := db, app_log := app_log app
                      @ [''Database doesn'' @ [CHR 0x27]
                         @ ''t initialized or malformed. Initialization...'']\<rparr>)
               else Inr (app\<lparr>storage := db\<rparr>)) of
           Inl e \<Rightarrow> uncaught e (app\<lparr>storage := db\<rparr>)
         | Inr app1 \<Rightarrow>
        (case new_Settings_SqliteWriter K of
           Some e \<Rightarrow> uncaught e app1
         | None \<Rightarrow>
        (case PrepareFileSystem C (files app1) of
           Inl (Exn e) \<Rightarrow>
             Exit 1 (app1\<lparr>app_log := app_log app1 @ [''Preparing filesystem error. '' @ e]\<rparr>)
         | Inr fs \<Rightarrow>
        (case new_NotificationCenter K of
           Some e \<Rightarrow> uncaught e (app1\<lparr>files := fs\<rparr>)
         | None \<Rightarrow>
        (case LoadData (app1\<lparr>files := fs\<rparr>) of
           Inl e \<Rightarrow> uncaught e (app1\<lparr>files := fs\<rparr>)
         | Inr app2 \<Rightarrow>
        (case start_services K of
           Some e \<Rightarrow> uncaught e app2
         | None \<Rightarrow> Serving (app2\<lparr>listening := True\<rparr>))))))))))"

section \<open>Notions for the statements about the start-up\<close>

text \<open>The names of the plugins of a registry.\<close>

definition plugin_names_of :: "ServerPlugin list \<Rightarrow> string set" where
  "plugin_names_of reg = name ` set reg"

text \<open>The message logged for a database that is not initialised.\<close>

definition database_message :: string where
  "database_message =
     ''Database doesn'' @ [CHR 0x27] @ ''t initialized or malformed. Initialization...''"

text \<open>
  A row of \<open>FetchObservables\<close> can be loaded into a registry when every plugin it names
  is registered.
\<close>

definition loadable :: "ServerPlugin list \<Rightarrow> ObservableRow \<Rightarrow> bool" where
  "loadable reg x \<longleftrightarrow> set (plugin_names x) \<subseteq> plugin_names_of reg"

text \<open>The message logged for a row of \<open>FetchObservables\<close> and a plugin name.\<close>

definition missing_plugin_message :: "ObservableRow \<Rightarrow> string \<Rightarrow> string" where
  "missing_plugin_message x n = obs_url x @ '' has missing plugin '' @ [CHR 0x27] @ n @ [CHR 0x27]"

section \<open>Backend utilities (Common/Util.ts): file names of recordings\<close>

text \<open>
  A parsed \<open>URL\<close> is read through \<open>hostname\<close> and \<open>pathname\<close>. The parser of Node
  (\<open>new URL(url)\<close>) is a parameter \<open>parse\<close>; it throws on a string that is no URL (\<open>None\<close>).
\<close>

record URL =
  hostname :: string
  pathname :: string

text \<open>
  \<open>String.prototype.split\<close> with a one-character separator: the pieces between the
  separators, one more than there are separators. \<open>cur\<close> is the piece being read.
\<close>

fun split_from :: "char \<Rightarrow> string \<Rightarrow> string \<Rightarrow> string list" where
  "split_from sep cur [] = [cur]"
| "split_from sep cur (x # xs) =
     (if x = sep then cur # split_from sep [] xs else split_from sep (cur @ [x]) xs)"

definition split :: "char \<Rightarrow> string \<Rightarrow> string list" where
  "split sep s = split_from sep [] s"

text \<open>
  \<^verbatim>\<open>const path = (new URL(url)).pathname.split('/'); return path[1];\<close>
  An index out of range reads \<open>undefined\<close>, here \<open>None\<close>.
\<close>

definition UsernameFromUrl :: "(string \<Rightarrow> URL option) \<Rightarrow> string \<Rightarrow> exn + string option" where
  "UsernameFromUrl parse url =
     (case parse url of
        None \<Rightarrow> Inl (Exn ''Invalid URL'')
      | Some u \<Rightarrow>
          (let path = split (CHR ''/'') (pathname u)
           in Inr (if 1 < length path then Some (path ! 1) else None)))"

text \<open>A template literal writes \<open>undefined\<close> as the word.\<close>

definition template_string :: "string option \<Rightarrow> string" where
  "template_string v = (case v of Some s \<Rightarrow> s | None \<Rightarrow> ''undefined'')"

text \<open>
  The clock as \<open>dayjs()\<close> reads it, and \<open>format('DDMMYYYYHHmmss')\<close>: every field in decimal,
  padded with zeros on the left to two places, the year to four.
\<close>

record clock =
  DD :: nat
  MM :: nat
  YYYY :: nat
  HH :: nat
  mm :: nat
  ss :: nat

definition digit_char :: "nat \<Rightarrow> char" where
  "digit_char n = ''0123456789'' ! (n mod 10)"

fun decimal :: "nat \<Rightarrow> string" where
  "decimal n = (if n < 10 then [digit_char n] else decimal (n div 10) @ [digit_char n])"

definition padStart :: "nat \<Rightarrow> char \<Rightarrow> string \<Rightarrow> string" where
  "padStart n c s = replicate (n - length s) c @ s"

definition format_DDMMYYYYHHmmss :: "clock \<Rightarrow> string" where
  "format_DDMMYYYYHHmmss t =
     padStart 2 (CHR ''0'') (decimal (DD t)) @ padStart 2 (CHR ''0'') (decimal (MM t))
     @ padStart 4 (CHR ''0'') (decimal (YYYY t)) @ padStart 2 (CHR ''0'') (decimal (HH t))
     @ padStart 2 (CHR ''0'') (decimal (mm t)) @ padStart 2 (CHR ''0'') (decimal (ss t))"

text \<open>
  A wall-clock time with a four-digit year, the times at which every version of \<open>dayjs\<close>
  writes \<open>YYYY\<close> alike.
\<close>

definition calendar_time :: "clock \<Rightarrow> bool" where
  "calendar_time t \<longleftrightarrow>
     1 \<le> DD t \<and> DD t \<le> 31 \<and> 1 \<le> MM t \<and> MM t \<le> 12 \<and> 1000 \<le> YYYY t \<and> YYYY t \<le> 9999
     \<and> HH t < 24 \<and> mm t < 60 \<and> ss t < 60"

text \<open>
  \<open>Buffer.alloc(3)\<close> filled by \<open>Crypto.randomFillSync\<close>: three bytes, the randomness being
  the input. \<open>toString('hex')\<close> writes every byte as two lower-case hexadecimal digits.
\<close>

type_synonym buffer3 = "8 word \<times> 8 word \<times> 8 word"

definition hex_char :: "nat \<Rightarrow> char" where
  "hex_char n = ''0123456789abcdef'' ! (n mod 16)"

definition hex_byte :: "8 word \<Rightarrow> string" where
  "hex_byte b = [hex_char (unat b div 16), hex_char (unat b)]"

definition toString_hex :: "buffer3 \<Rightarrow> string" where
  "toString_hex buf = (case buf of (b0, b1, b2) \<Rightarrow> hex_byte b0 @ hex_byte b1 @ hex_byte b2)"

text \<open>
  \<^verbatim>\<open>const u = new URL(url);
  const unique = Crypto.randomFillSync(buf).toString('hex');
  return `${u.hostname}_${UsernameFromUrl(url)}_${dayjs().format(`DDMMYYYYHHmmss`)}_${unique}.mp4`;\<close>
\<close>

definition GenFilename :: "(string \<Rightarrow> URL option) \<Rightarrow> clock \<Rightarrow> buffer3 \<Rightarrow> string \<Rightarrow> exn + string" where
  "GenFilename parse now buf url =
     (case parse url of
        None \<Rightarrow> Inl (Exn ''Invalid URL'')
      | Some u \<Rightarrow>
          (let unique = toString_hex buf
           in case UsernameFromUrl parse url of
                Inl e \<Rightarrow> Inl e
              | Inr user \<Rightarrow>
                  Inr (hostname u @ ''_'' @ template_string user @ ''_''
                       @ format_DDMMYYYYHHmmss now @ ''_'' @ unique @ ''.mp4'')))"

section \<open>Backend utilities (Common/Util.ts): file names of clips\<close>

text \<open>
  The character classes of the regular expression
  \<^verbatim>\<open>/([\w+.]+_.+_\d{14}_)([a-f0-9]{6}?)(\.mp4)/\<close>: \<open>\w\<close>, \<open>[\w+.]\<close>, the dot (every
  character but a line terminator), \<open>\d\<close> and \<open>[a-f0-9]\<close>.
\<close>

definition word_char :: "char \<Rightarrow> bool" where
  "word_char c \<longleftrightarrow>
     c \<in> set ''abcdefghijklmnopqrstuvwxyzABCDEFGHIJKLMNOPQRSTUVWXYZ0123456789_''"

definition word_plus_dot :: "char \<Rightarrow> bool" where
  "word_plus_dot c \<longleftrightarrow> word_char c \<or> c = CHR ''+'' \<or> c = CHR ''.''"

definition any_char :: "char \<Rightarrow> bool" where
  "any_char c \<longleftrightarrow> c \<noteq> CHR 0x0A \<and> c \<noteq> CHR 0x0D"

definition decimal_digit :: "char \<Rightarrow> bool" where
  "decimal_digit c \<longleftrightarrow> c \<in> set ''0123456789''"

definition hex_lower :: "char \<Rightarrow> bool" where
  "hex_lower c \<longleftrightarrow> c \<in> set ''abcdef0123456789''"

text \<open>
  A backtracking matcher is the list of its ways to match at the start of the input, in
  the order the engine tries them, each with the matched text and the input left over.
  \<open>greedy_plus\<close> is \<open>c+\<close> (longest first), \<open>exactly\<close> is \<open>c{n}\<close> (and \<open>c{n}?\<close>, which has
  the same one way), \<open>literal\<close> a fixed text.
\<close>

fun greedy_plus :: "(char \<Rightarrow> bool) \<Rightarrow> string \<Rightarrow> (string \<times> string) list" where
  "greedy_plus P [] = []"
| "greedy_plus P (x # xs) =
     (if P x then map (\<lambda>(m, r). (x # m, r)) (greedy_plus P xs) @ [([x], xs)] else [])"

fun exactly :: "nat \<Rightarrow> (char \<Rightarrow> bool) \<Rightarrow> string \<Rightarrow> (string \<times> string) list" where
  "exactly 0 P s = [([], s)]"
| "exactly (Suc n) P [] = []"
| "exactly (Suc n) P (x # xs) =
     (if P x then map (\<lambda>(m, r). (x # m, r)) (exactly n P xs) else [])"

definition literal :: "string \<Rightarrow> string \<Rightarrow> (string \<times> string) list" where
  "literal l s = (if take (length l) s = l then [(l, drop (length l) s)] else [])"

text \<open>
  The end of the expression, \<^verbatim>\<open>_\d{14}_)([a-f0-9]{6}?)(\.mp4)\<close>: the text it adds to the
  first group, the second and the third group, and the input left over.
\<close>

definition timestamp_unique_mp4 :: "string \<Rightarrow> ((string \<times> string \<times> string) \<times> string) list" where
  "timestamp_unique_mp4 s =
     List.bind (literal ''_'' s) (\<lambda>(u1, r1).
     List.bind (exactly 14 decimal_digit r1) (\<lambda>(d, r2).
     List.bind (literal ''_'' r2) (\<lambda>(u2, r3).
     List.bind (exactly 6 hex_lower r3) (\<lambda>(g2, r4).
     List.bind (literal ''.mp4'' r4) (\<lambda>(g3, r5).
       [((u1 @ d @ u2, g2, g3), r5)])))))"

text \<open>The whole expression at the start of the input: the three groups and the rest.\<close>

definition clip_regex :: "string \<Rightarrow> ((string \<times> string \<times> string) \<times> string) list" where
  "clip_regex s =
     List.bind (greedy_plus word_plus_dot s) (\<lambda>(a, r1).
     List.bind (literal ''_'' r1) (\<lambda>(u, r2).
     List.bind (greedy_plus any_char r2) (\<lambda>(b, r3).
       map (\<lambda>((t, g2, g3), r). ((a @ u @ b @ t, g2, g3), r)) (timestamp_unique_mp4 r3))))"

text \<open>
  The first match: the leftmost start where the expression matches, there the first way.
  The result is the text before the match, the groups and the text after.
\<close>

fun exec :: "string \<Rightarrow> string \<Rightarrow> (string \<times> (string \<times> string \<times> string) \<times> string) option" where
  "exec front [] =
     (case clip_regex [] of (g, r) # _ \<Rightarrow> Some (front, g, r) | [] \<Rightarrow> None)"
| "exec front (x # xs) =
     (case clip_regex (x # xs) of
        (g, r) # _ \<Rightarrow> Some (front, g, r)
      | [] \<Rightarrow> exec (front @ [x]) xs)"

text \<open>
  The replacement text of \<open>String.prototype.replace\<close> (GetSubstitution of ECMAScript):
  \<open>$\<close> and two digits name a group when there are that many groups, else \<open>$\<close> and one
  digit do, followed by the other digit as it is; a reference to a group that does not
  exist stays as it is. The template here has \<open>$\<close> before digits only.
\<close>

definition digit_value :: "char \<Rightarrow> nat" where
  "digit_value c = of_char c - 48"

definition one_digit :: "string list \<Rightarrow> char \<Rightarrow> string" where
  "one_digit captures d =
     (if 1 \<le> digit_value d \<and> digit_value d \<le> length captures
      then captures ! (digit_value d - 1) else [CHR ''$'', d])"

fun GetSubstitution :: "string list \<Rightarrow> string \<Rightarrow> string" where
  "GetSubstitution captures [] = []"
| "GetSubstitution captures [c] = [c]"
| "GetSubstitution captures [c, d] =
     (if c = CHR ''$'' \<and> decimal_digit d then one_digit captures d
      else c # GetSubstitution captures [d])"
| "GetSubstitution captures (c # d # e # t) =
     (if c = CHR ''$'' \<and> decimal_digit d then
        (if decimal_digit e \<and> 10 * digit_value d + digit_value e \<le> length captures then
           (if 1 \<le> 10 * digit_value d + digit_value e
            then captures ! (10 * digit_value d + digit_value e - 1) @ GetSubstitution captures t
            else [c, d, e] @ GetSubstitution captures t)
         else one_digit captures d @ GetSubstitution captures (e # t))
      else c # GetSubstitution captures (d # e # t))"

text \<open>
  \<^verbatim>\<open>const unique = Crypto.randomFillSync(buf).toString('hex');
  return filename.replace(/([\w+.]+_.+_\d{14}_)([a-f0-9]{6}?)(\.mp4)/, `$1${unique}$3`);\<close>
  Without a match \<open>replace\<close> returns the string as it is.
\<close>

definition GenClipFilename :: "buffer3 \<Rightarrow> string \<Rightarrow> string" where
  "GenClipFilename buf filename =
     (let unique = toString_hex buf
      in case exec [] filename of
           None \<Rightarrow> filename
         | Some (front, (g1, g2, g3), rest) \<Rightarrow>
             front @ GetSubstitution [g1, g2, g3] (''$1'' @ unique @ ''$3'') @ rest)"

section \<open>Notions for the statements about the file names of clips\<close>

text \<open>The end of a generated name: underscore, timestamp, underscore, suffix, \<open>.mp4\<close>.\<close>

definition name_end :: "string \<Rightarrow> string \<Rightarrow> string" where
  "name_end ts hx = ''_'' @ ts @ ''_'' @ hx @ ''.mp4''"

text \<open>
  The first way to match ends at the end of the input: \<open>ends_at_end\<close> says so of a list of
  ways. \<open>drains T s\<close> says that the input either is too short for the end of the
  expression or is some text without line terminators followed by the end \<open>T\<close>.
\<close>

definition ends_at_end :: "('a \<times> string) list \<Rightarrow> bool" where
  "ends_at_end ws \<longleftrightarrow> (case ws of [] \<Rightarrow> True | (g, r) # _ \<Rightarrow> r = [])"

definition drains :: "string \<Rightarrow> string \<Rightarrow> bool" where
  "drains T s \<longleftrightarrow> length s \<le> 26 \<or> (\<exists>y. y \<noteq> [] \<and> list_all any_char y \<and> s = y @ T)"

text \<open>The text of the user and the end of the expression, for any way to build the groups.\<close>

definition user_and_end ::
    "(string \<Rightarrow> (string \<times> string \<times> string) \<times> string \<Rightarrow> (string \<times> string \<times> string) \<times> string)
      \<Rightarrow> string \<Rightarrow> ((string \<times> string \<times> string) \<times> string) list" where
  "user_and_end F s =
     List.bind (greedy_plus any_char s) (\<lambda>(b, r3). map (F b) (timestamp_unique_mp4 r3))"

text \<open>
  The text before the timestamp has a separator when one of its underscores comes directly
  after a character of \<open>[\w+.]\<close> and is not its last character.
\<close>

fun has_separator :: "string \<Rightarrow> bool" where
  "has_separator (c # d # e # r) \<longleftrightarrow>
     (word_plus_dot c \<and> d = CHR ''_'') \<or> has_separator (d # e # r)"
| "has_separator s \<longleftrightarrow> False"

section \<open>Properties of the active plugin\<close>

lemma find_first_index:
  "find P xs = Some x \<longleftrightarrow> (\<exists>i < length xs. xs ! i = x \<and> P x \<and> (\<forall>j < i. \<not> P (xs ! j)))"
  by (auto simp: find_Some_iff)

lemma find_first_match:
  "(\<forall>x \<in> set pre. \<not> P x) \<Longrightarrow> P s \<Longrightarrow> find P (pre @ s # post) = Some s"
  by (induction pre) simp_all

lemma Plugins_of_stream:
  assumes "obs = pre @ s # post" and "uri s = t" and "\<forall>ob \<in> set pre. uri ob \<noteq> t"
  shows "Plugins obs t = plugins s"
proof -
  have "find (\<lambda>ob. uri ob = t) (pre @ s # post) = Some s"
    using assms(2,3) by (intro find_first_match) simp_all
  with assms(1) show ?thesis by (simp add: Plugins_def)
qed

lemma Plugins_unknown: "\<forall>ob \<in> set obs. uri ob \<noteq> t \<Longrightarrow> Plugins obs t = []"
proof -
  assume "\<forall>ob \<in> set obs. uri ob \<noteq> t"
  then have "find (\<lambda>ob. uri ob = t) obs = None" by (simp add: find_None_iff)
  then show ?thesis by (simp add: Plugins_def)
qed

text \<open>
  C1. For every observable of the store, found by its uri (the first stream with that uri,
  should several carry it), the active plugin is determined by the ordered plugin list of
  that stream and of no other: there is no active plugin exactly when no entry of the list
  is enabled, and otherwise the active plugin is the first enabled entry of the list, every
  entry before it being disabled; so at most one plugin is active. For a uri that no
  observable carries there is no active plugin.
\<close>

theorem C1_active_plugin_first_enabled:
  "((\<forall>ob \<in> set obs. uri ob \<noteq> t) \<longrightarrow> ActivePlugin obs t = None)
   \<and> (\<forall>pre s post. obs = pre @ s # post \<and> uri s = t \<and> (\<forall>ob \<in> set pre. uri ob \<noteq> t) \<longrightarrow>
         (ActivePlugin obs t = None \<longleftrightarrow> (\<forall>p \<in> set (plugins s). \<not> enabled p))
         \<and> (\<forall>p. ActivePlugin obs t = Some p \<longleftrightarrow>
               (\<exists>i < length (plugins s). plugins s ! i = p \<and> enabled p
                  \<and> (\<forall>j < i. \<not> enabled (plugins s ! j)))))"
proof (intro conjI allI impI)
  assume "\<forall>ob \<in> set obs. uri ob \<noteq> t"
  then show "ActivePlugin obs t = None"
    by (simp add: ActivePlugin_def Plugins_unknown)
next
  fix pre s post
  assume "obs = pre @ s # post \<and> uri s = t \<and> (\<forall>ob \<in> set pre. uri ob \<noteq> t)"
  then have P: "Plugins obs t = plugins s"
    using Plugins_of_stream [of obs pre s post t] by blast
  show "ActivePlugin obs t = None \<longleftrightarrow> (\<forall>p \<in> set (plugins s). \<not> enabled p)"
    by (auto simp: ActivePlugin_def P find_None_iff)
  fix p
  show "ActivePlugin obs t = Some p \<longleftrightarrow>
      (\<exists>i < length (plugins s). plugins s ! i = p \<and> enabled p
         \<and> (\<forall>j < i. \<not> enabled (plugins s ! j)))"
    unfolding ActivePlugin_def P by (rule find_first_index)
qed

theorem C1_active_plugin_witness:
  "ActivePlugin
     [\<lparr>uri = ''v'', plugins = [\<lparr>name = ''z'', enabled = True\<rparr>]\<rparr>,
      \<lparr>uri = ''u'', plugins = [\<lparr>name = ''a'', enabled = False\<rparr>, \<lparr>name = ''b'', enabled = True\<rparr>,
         \<lparr>name = ''c'', enabled = True\<rparr>]\<rparr>,
      \<lparr>uri = ''w'', plugins = [\<lparr>name = ''y'', enabled = True\<rparr>]\<rparr>] ''u''
     = Some \<lparr>name = ''b'', enabled = True\<rparr>
   \<and> ActivePlugin
     [\<lparr>uri = ''v'', plugins = [\<lparr>name = ''z'', enabled = True\<rparr>]\<rparr>,
      \<lparr>uri = ''u'', plugins = [\<lparr>name = ''a'', enabled = False\<rparr>, \<lparr>name = ''b'', enabled = True\<rparr>,
         \<lparr>name = ''c'', enabled = True\<rparr>]\<rparr>,
      \<lparr>uri = ''w'', plugins = [\<lparr>name = ''y'', enabled = True\<rparr>]\<rparr>] ''x''
     = None"
proof -
  let ?v = "\<lparr>uri = ''v'', plugins = [\<lparr>name = ''z'', enabled = True\<rparr>]\<rparr>"
  let ?u = "\<lparr>uri = ''u'', plugins = [\<lparr>name = ''a'', enabled = False\<rparr>,
     \<lparr>name = ''b'', enabled = True\<rparr>, \<lparr>name = ''c'', enabled = True\<rparr>]\<rparr>"
  let ?w = "\<lparr>uri = ''w'', plugins = [\<lparr>name = ''y'', enabled = True\<rparr>]\<rparr>"
  let ?b = "\<lparr>name = ''b'', enabled = True\<rparr>"
  have split: "[?v, ?u, ?w] = [?v] @ ?u # [?w] \<and> uri ?u = ''u'' \<and> (\<forall>ob \<in> set [?v]. uri ob \<noteq> ''u'')"
    by simp
  have ex: "\<exists>i < length (plugins ?u). plugins ?u ! i = ?b \<and> enabled ?b
      \<and> (\<forall>j < i. \<not> enabled (plugins ?u ! j))"
    by (rule exI [of _ 1]) simp
  from C1_active_plugin_first_enabled [of "[?v, ?u, ?w]" "''u''"] split ex
  have 1: "ActivePlugin [?v, ?u, ?w] ''u'' = Some ?b" by blast
  have "\<forall>ob \<in> set [?v, ?u, ?w]. uri ob \<noteq> ''x''" by simp
  with C1_active_plugin_first_enabled [of "[?v, ?u, ?w]" "''x''"]
  have 2: "ActivePlugin [?v, ?u, ?w] ''x'' = None" by blast
  from 1 2 show ?thesis by simp
qed

section \<open>Properties of the exception-ignoring calls\<close>

text \<open>
  C9. \<open>IE\<close>, \<open>IEM\<close> and \<open>AIE\<close> never propagate an exception: for every wrapped function
  and arguments, \<open>IE\<close> and \<open>IEM\<close> return the function's result when it returns and \<open>null\<close>
  when it throws, and never throw; the promise of \<open>AIE\<close> is fulfilled with the function's
  value (returned plainly or through a fulfilled promise), fulfilled with \<open>null\<close> when the
  function throws or its promise rejects, and is never rejected.
\<close>

theorem C9_wrappers_never_throw:
  "(\<forall>v. fn args = Inr v \<longrightarrow> IE fn args = Inr (Some v))
   \<and> (\<forall>e. fn args = Inl e \<longrightarrow> IE fn args = Inr None)
   \<and> (\<forall>e. IE fn args \<noteq> Inl e)
   \<and> (\<forall>v. m ctx margs = Inr v \<longrightarrow> IEM m ctx margs = Inr (Some v))
   \<and> (\<forall>e. m ctx margs = Inl e \<longrightarrow> IEM m ctx margs = Inr None)
   \<and> (\<forall>e. IEM m ctx margs \<noteq> Inl e)
   \<and> (\<forall>v. afn aargs = Inr (Plain v) \<or> afn aargs = Inr (Thenable (Fulfilled v))
         \<longrightarrow> AIE afn aargs = Fulfilled (Some v))
   \<and> (\<forall>e. afn aargs = Inl e \<or> afn aargs = Inr (Thenable (Rejected e))
         \<longrightarrow> AIE afn aargs = Fulfilled None)
   \<and> (\<forall>e. AIE afn aargs \<noteq> Rejected e)"
proof (intro conjI allI impI)
  fix e show "IE fn args \<noteq> Inl e"
    by (simp add: IE_def split: sum.splits)
next
  fix e show "IEM m ctx margs \<noteq> Inl e"
    by (simp add: IEM_def split: sum.splits)
next
  fix e show "AIE afn aargs \<noteq> Rejected e"
    by (simp add: AIE_def split: sum.splits awaitable.splits promise.splits)
qed (auto simp: IE_def IEM_def AIE_def)

theorem C9_wrappers_witness:
  "IE (\<lambda>x::nat. if x = 0 then Inl (Exn ''division by zero'') else Inr (10 div x)) 0 = Inr None
   \<and> IE (\<lambda>x::nat. if x = 0 then Inl (Exn ''division by zero'') else Inr (10 div x)) 5 = Inr (Some 2)
   \<and> IEM (\<lambda>c x::nat. if x = 0 then Inl (Exn ''division by zero'') else Inr (c div x)) 10 0 = Inr None
   \<and> IEM (\<lambda>c x::nat. if x = 0 then Inl (Exn ''division by zero'') else Inr (c div x)) 10 5 = Inr (Some 2)
   \<and> AIE (\<lambda>x::nat. if x = 0 then Inr (Thenable (Rejected (Exn ''ENOENT''))) else Inr (Plain x)) 0
       = Fulfilled None
   \<and> AIE (\<lambda>x::nat. if x = 0 then Inr (Thenable (Rejected (Exn ''ENOENT''))) else Inr (Plain x)) 7
       = Fulfilled (Some 7)"
  using
    C9_wrappers_never_throw
      [of "\<lambda>x::nat. if x = 0 then Inl (Exn ''division by zero'') else Inr (10 div x)" 0
          "\<lambda>c x::nat. if x = 0 then Inl (Exn ''division by zero'') else Inr (c div x)" 10 0
          "\<lambda>x::nat. if x = 0 then Inr (Thenable (Rejected (Exn ''ENOENT''))) else Inr (Plain x)" 0]
    C9_wrappers_never_throw
      [of "\<lambda>x::nat. if x = 0 then Inl (Exn ''division by zero'') else Inr (10 div x)" 5
          "\<lambda>c x::nat. if x = 0 then Inl (Exn ''division by zero'') else Inr (c div x)" 10 5
          "\<lambda>x::nat. if x = 0 then Inr (Thenable (Rejected (Exn ''ENOENT''))) else Inr (Plain x)" 7]
  by simp

section \<open>Properties of the resource monitor\<close>

lemma poll_total: "\<exists>m'. poll disk root m = Inr m'"
  by (simp add: poll_def split: promise.splits exn.splits)

lemma poll_failure:
  "fst (disk root) = Some (Exn msg) \<Longrightarrow>
     poll disk root m = Inr (m\<lparr>monitor_log := monitor_log m @ [msg]\<rparr>)"
  by (cases "disk root") (simp add: poll_def GetFolderSize_def)

lemma poll_success:
  "disk root = (None, sz) \<Longrightarrow>
     poll disk root m = Inr (m\<lparr>sample := Some sz, published := published m @ [sz]\<rparr>)"
  by (simp add: poll_def GetFolderSize_def)

lemma poll_loop_result:
  "\<exists>m'. poll_loop disks root m = Inr m'
     \<and> sample m' = last_sample disks root (sample m)
     \<and> length (monitor_log m') =
         length (monitor_log m) + length (filter (\<lambda>disk. fst (disk root) \<noteq> None) disks)"
proof (induction disks arbitrary: m)
  case Nil
  show ?case by simp
next
  case (Cons disk disks)
  show ?case
  proof (cases "disk root")
    case (Pair err sz)
    show ?thesis
    proof (cases err)
      case None
      with Pair have step: "poll disk root m =
          Inr (m\<lparr>sample := Some sz, published := published m @ [sz]\<rparr>)"
        by (simp add: poll_success)
      from Cons.IH [of "m\<lparr>sample := Some sz, published := published m @ [sz]\<rparr>"]
      show ?thesis using step Pair None by simp
    next
      case (Some e)
      obtain msg where e: "e = Exn msg" by (cases e)
      with Pair Some have step: "poll disk root m = Inr (m\<lparr>monitor_log := monitor_log m @ [msg]\<rparr>)"
        by (simp add: poll_failure)
      from Cons.IH [of "m\<lparr>monitor_log := monitor_log m @ [msg]\<rparr>"]
      show ?thesis using step Pair Some by simp
    qed
  qed
qed

text \<open>
  C8. A failure while sampling the disk usage under the archive root is never fatal: the
  polling loop does not crash whatever the disk answers, a failing sample adds its error to
  the log and leaves the published sample as it was, and after any run of the loop the
  current sample is the last one that was taken without an error.
\<close>

theorem C8_sampling_failure_retains_sample:
  "(\<forall>e. poll_loop disks root m \<noteq> Inl e)
   \<and> (\<forall>msg. fst (disk root) = Some (Exn msg) \<longrightarrow>
         (\<exists>m'. poll disk root m = Inr m' \<and> sample m' = sample m \<and> published m' = published m
            \<and> monitor_log m' = monitor_log m @ [msg]))
   \<and> (\<exists>m'. poll_loop disks root m = Inr m' \<and> sample m' = last_sample disks root (sample m)
         \<and> length (monitor_log m') =
             length (monitor_log m) + length (filter (\<lambda>disk. fst (disk root) \<noteq> None) disks))"
proof (intro conjI allI impI)
  fix e
  from poll_loop_result [of disks root m] show "poll_loop disks root m \<noteq> Inl e" by auto
next
  fix msg assume "fst (disk root) = Some (Exn msg)"
  then show "\<exists>m'. poll disk root m = Inr m' \<and> sample m' = sample m \<and> published m' = published m
            \<and> monitor_log m' = monitor_log m @ [msg]"
    by (simp add: poll_failure)
next
  show "\<exists>m'. poll_loop disks root m = Inr m' \<and> sample m' = last_sample disks root (sample m)
         \<and> length (monitor_log m') =
             length (monitor_log m) + length (filter (\<lambda>disk. fst (disk root) \<noteq> None) disks)"
    by (rule poll_loop_result)
qed

theorem C8_sampling_failure_witness:
  "poll (\<lambda>p. (Some (Exn ''ENOENT''), 0)) ''data/archive''
      \<lparr>sample = Some 42, published = [42], monitor_log = []\<rparr>
     = Inr \<lparr>sample = Some 42, published = [42], monitor_log = [''ENOENT'']\<rparr>
   \<and> poll_loop [\<lambda>p. (None, 7), \<lambda>p. (Some (Exn ''EIO''), 0)] ''data/archive''
      \<lparr>sample = Some 42, published = [42], monitor_log = []\<rparr>
     = Inr \<lparr>sample = Some 7, published = [42, 7], monitor_log = [''EIO'']\<rparr>"
  using C8_sampling_failure_retains_sample
    [of "[\<lambda>p. (None, 7), \<lambda>p. (Some (Exn ''EIO''), 0)]" "''data/archive''"
        "\<lparr>sample = Some 42, published = [42], monitor_log = []\<rparr>"
        "\<lambda>p. (Some (Exn ''ENOENT''), 0)"]
  by (simp add: poll_def GetFolderSize_def)

section \<open>Properties of the shutdown\<close>

lemma CompleteEvent_after_exit: "exit_code s \<noteq> None \<Longrightarrow> CompleteEvent l s = s"
  by (simp add: CompleteEvent_def)

lemma drain_after_exit: "exit_code s \<noteq> None \<Longrightarrow> drain ls s = s"
  by (induction ls) (simp_all add: drain_def CompleteEvent_after_exit)

lemma drain_countdown:
  "handler_installed s \<Longrightarrow> exit_code s = None \<Longrightarrow> 0 < awaitedRecordings s \<Longrightarrow>
     exit_code (drain ls s) = (if awaitedRecordings s \<le> int (length ls) then Some 0 else None)"
proof (induction ls arbitrary: s)
  case Nil
  then show ?case by (simp add: drain_def)
next
  case (Cons l ls)
  show ?case
  proof (cases "awaitedRecordings s = 1")
    case True
    with Cons.prems have "exit_code (CompleteEvent l s) = Some 0"
      by (simp add: CompleteEvent_def)
    then have "drain ls (CompleteEvent l s) = CompleteEvent l s"
      by (simp add: drain_after_exit)
    with True \<open>exit_code (CompleteEvent l s) = Some 0\<close> show ?thesis
      by (simp add: drain_def)
  next
    case False
    with Cons.prems have step: "CompleteEvent l s = s\<lparr>awaitedRecordings := awaitedRecordings s - 1\<rparr>"
      by (simp add: CompleteEvent_def)
    from Cons.prems False
    have "exit_code (drain ls (s\<lparr>awaitedRecordings := awaitedRecordings s - 1\<rparr>)) =
        (if awaitedRecordings (s\<lparr>awaitedRecordings := awaitedRecordings s - 1\<rparr>) \<le> int (length ls)
         then Some 0 else None)"
      by (intro Cons.IH) simp_all
    with step show ?thesis by (simp add: drain_def)
  qed
qed

lemma Shutdown_drain:
  "exit_code (drain ls (Shutdown rs)) = (if length rs \<le> length ls then Some 0 else None)"
proof (cases rs)
  case Nil
  then have "exit_code (Shutdown rs) = Some 0" by (simp add: Shutdown_def)
  with Nil show ?thesis by (simp add: drain_after_exit)
next
  case (Cons r rs')
  then have "handler_installed (Shutdown rs)" "exit_code (Shutdown rs) = None"
    "awaitedRecordings (Shutdown rs) = int (length rs)"
    by (simp_all add: Shutdown_def)
  with Cons drain_countdown [of "Shutdown rs" ls] show ?thesis by simp
qed

text \<open>
  C2. On a shutdown signal with N active recording sessions, \<open>StopRecording\<close> is requested
  for the label of every active session; the exit path (\<open>process.exit(0)\<close>) has been taken
  after a run of stop-completion notifications exactly when at least N of them were
  counted, so for the N notifications of the sessions in any order it is taken after the
  last one and after no shorter prefix; with N = 0 the shutdown exits at once.
\<close>

theorem C2_shutdown_drains:
  "stop_requested (Shutdown rs) = map label rs
   \<and> (rs = [] \<longrightarrow> exit_code (Shutdown rs) = Some 0)
   \<and> exit_code (drain ls (Shutdown rs)) = (if length rs \<le> length ls then Some 0 else None)
   \<and> (mset ls = mset (map label rs) \<longrightarrow>
        exit_code (drain ls (Shutdown rs)) = Some 0
        \<and> (\<forall>k < length ls. exit_code (drain (take k ls) (Shutdown rs)) = None))"
proof (intro conjI impI allI)
  show "stop_requested (Shutdown rs) = map label rs"
    by (simp add: Shutdown_def)
  show "exit_code (Shutdown rs) = Some 0" if "rs = []"
    using that by (simp add: Shutdown_def)
  show "exit_code (drain ls (Shutdown rs)) = (if length rs \<le> length ls then Some 0 else None)"
    by (rule Shutdown_drain)
  assume perm: "mset ls = mset (map label rs)"
  then have len: "length ls = length rs"
    by (metis length_map size_mset)
  then show "exit_code (drain ls (Shutdown rs)) = Some 0"
    by (simp add: Shutdown_drain)
  fix k assume "k < length ls"
  with len show "exit_code (drain (take k ls) (Shutdown rs)) = None"
    by (simp add: Shutdown_drain)
qed

theorem C2_shutdown_witness:
  "exit_code (drain [''b''] (Shutdown [\<lparr>label = ''a''\<rparr>, \<lparr>label = ''b''\<rparr>])) = None
   \<and> exit_code (drain [''b'', ''a''] (Shutdown [\<lparr>label = ''a''\<rparr>, \<lparr>label = ''b''\<rparr>])) = Some 0
   \<and> stop_requested (Shutdown [\<lparr>label = ''a''\<rparr>, \<lparr>label = ''b''\<rparr>]) = [''a'', ''b'']
   \<and> exit_code (Shutdown []) = Some 0"
  using C2_shutdown_drains [of "[\<lparr>label = ''a''\<rparr>, \<lparr>label = ''b''\<rparr>]" "[''b'', ''a'']"]
    C2_shutdown_drains [of "[\<lparr>label = ''a''\<rparr>, \<lparr>label = ''b''\<rparr>]" "[''b'']"]
    C2_shutdown_drains [of "[]" "[]"]
  by simp

section \<open>Properties of the arbiter set-up\<close>

lemma Setup_arbiters:
  "arbiters (SetupPluginManagerController sid iid did s c) =
     (\<lambda>k. if k = did \<and> downloadSpeedQuota s > 0 then Some (DownloadSpeedQuota (downloadSpeedQuota s))
          else if k = iid \<and> instanceQuota s > 0 then Some (InstanceQuota (instanceQuota s))
          else if k = sid \<and> storageQuota s > 0 then Some (StorageQuota (storageQuota s))
          else arbiters c k)"
  by (auto simp: SetupPluginManagerController_def AddArbiter_def AddInterceptor_def Let_def fun_eq_iff)

text \<open>
  C3. For every persisted settings value, set up on the controller of a fresh application
  with three distinct identifiers: the storage, instance and download-speed arbiter is
  registered with the plugin manager controller if and only if its configured limit is
  strictly greater than zero, then with that limit as its quota; a zero or negative limit
  leaves the arbiter unregistered, and nothing else is registered.
\<close>

theorem C3_arbiter_registered_iff_positive:
  assumes "distinct [sid, iid, did]"
  shows "(sid \<in> dom (arbiters (SetupPluginManagerController sid iid did s new_controller))
            \<longleftrightarrow> storageQuota s > 0)
       \<and> (iid \<in> dom (arbiters (SetupPluginManagerController sid iid did s new_controller))
            \<longleftrightarrow> instanceQuota s > 0)
       \<and> (did \<in> dom (arbiters (SetupPluginManagerController sid iid did s new_controller))
            \<longleftrightarrow> downloadSpeedQuota s > 0)
       \<and> (storageQuota s > 0 \<longrightarrow>
            arbiters (SetupPluginManagerController sid iid did s new_controller) sid
              = Some (StorageQuota (storageQuota s)))
       \<and> (instanceQuota s > 0 \<longrightarrow>
            arbiters (SetupPluginManagerController sid iid did s new_controller) iid
              = Some (InstanceQuota (instanceQuota s)))
       \<and> (downloadSpeedQuota s > 0 \<longrightarrow>
            arbiters (SetupPluginManagerController sid iid did s new_controller) did
              = Some (DownloadSpeedQuota (downloadSpeedQuota s)))
       \<and> dom (arbiters (SetupPluginManagerController sid iid did s new_controller))
            \<subseteq> {sid, iid, did}"
  using assms by (auto simp: Setup_arbiters new_controller_def dom_def split: if_splits)

theorem C3_arbiter_registered_witness:
  "dom (arbiters (SetupPluginManagerController ''storage'' ''instance'' ''speed''
          \<lparr>storageQuota = 100, instanceQuota = 0, downloadSpeedQuota = -1\<rparr> new_controller))
     = {''storage''}"
  using C3_arbiter_registered_iff_positive [of "''storage''" "''instance''" "''speed''"
      "\<lparr>storageQuota = 100, instanceQuota = 0, downloadSpeedQuota = -1\<rparr>"]
  by auto

section \<open>Properties of the recording service\<close>

text \<open>
  C7. \<open>StopRecording\<close> is idempotent: for every label and every state of the service, the
  first call returns without an error, a second call in a row returns the state of the first
  unchanged and without an error, and the two calls together emit exactly one stop event
  when a session with the label was active (and none when there was no such session).
\<close>

theorem C7_StopRecording_idempotent:
  "\<exists>r1. StopRecording l r = Inr r1 \<and> StopRecording l r1 = Inr r1
     \<and> l \<notin> set (map label (Records r1))
     \<and> (l \<in> set (map label (Records r)) \<longrightarrow> events r1 = events r @ [SessionStopped l])
     \<and> (l \<notin> set (map label (Records r)) \<longrightarrow> r1 = r)"
  by (auto simp: StopRecording_def)

theorem C7_StopRecording_witness:
  "StopRecording ''a'' \<lparr>Records = [\<lparr>label = ''a''\<rparr>, \<lparr>label = ''b''\<rparr>], events = []\<rparr>
     = Inr \<lparr>Records = [\<lparr>label = ''b''\<rparr>], events = [SessionStopped ''a'']\<rparr>
   \<and> StopRecording ''a'' \<lparr>Records = [\<lparr>label = ''b''\<rparr>], events = [SessionStopped ''a'']\<rparr>
     = Inr \<lparr>Records = [\<lparr>label = ''b''\<rparr>], events = [SessionStopped ''a'']\<rparr>"
  using C7_StopRecording_idempotent [of "''a''" "\<lparr>Records = [\<lparr>label = ''a''\<rparr>, \<lparr>label = ''b''\<rparr>], events = []\<rparr>"]
  by (auto simp: StopRecording_def)

section \<open>Properties of the file names of recordings\<close>

declare decimal.simps [simp del]

lemma split_from_takeWhile:
  "split_from sep cur s =
     (cur @ takeWhile (\<lambda>c. c \<noteq> sep) s)
       # (case dropWhile (\<lambda>c. c \<noteq> sep) s of [] \<Rightarrow> [] | x # r \<Rightarrow> split_from sep [] r)"
  by (induction s arbitrary: cur) simp_all

lemma split_leading_separator:
  "split sep (sep # rest) =
     [] # takeWhile (\<lambda>c. c \<noteq> sep) rest
        # (case dropWhile (\<lambda>c. c \<noteq> sep) rest of [] \<Rightarrow> [] | x # r \<Rightarrow> split_from sep [] r)"
  by (simp add: split_def split_from_takeWhile [of sep "[]" rest])

lemma UsernameFromUrl_first_segment:
  assumes "parse url = Some u" and "pathname u = CHR ''/'' # rest"
  shows "UsernameFromUrl parse url = Inr (Some (takeWhile (\<lambda>c. c \<noteq> CHR ''/'') rest))"
  using assms by (simp add: UsernameFromUrl_def split_leading_separator)

lemma digit_char_decimal: "decimal_digit (digit_char n)"
proof -
  have "n mod 10 < length ''0123456789''" by simp
  then have "''0123456789'' ! (n mod 10) \<in> set ''0123456789''" by (rule nth_mem)
  then show ?thesis by (simp only: digit_char_def decimal_digit_def)
qed

lemma decimal_digits: "list_all decimal_digit (decimal n)"
proof (induction n rule: decimal.induct)
  case (1 n)
  then show ?case
    by (subst decimal.simps) (simp add: digit_char_decimal)
qed

lemma decimal_length_1: "n < 10 \<Longrightarrow> length (decimal n) = 1"
  by (subst decimal.simps) simp

lemma decimal_length_2: "10 \<le> n \<Longrightarrow> n < 100 \<Longrightarrow> length (decimal n) = 2"
  by (subst decimal.simps) (simp add: decimal_length_1)

lemma decimal_length_3: "100 \<le> n \<Longrightarrow> n < 1000 \<Longrightarrow> length (decimal n) = 3"
  by (subst decimal.simps) (simp add: decimal_length_2)

lemma decimal_length_4: "1000 \<le> n \<Longrightarrow> n < 10000 \<Longrightarrow> length (decimal n) = 4"
  by (subst decimal.simps) (simp add: decimal_length_3)

lemma padStart_2_length: "n < 100 \<Longrightarrow> length (padStart 2 c (decimal n)) = 2"
  by (cases "n < 10") (simp_all add: padStart_def decimal_length_1 decimal_length_2)

lemma padStart_digits:
  "list_all decimal_digit (padStart k (CHR ''0'') (decimal n))"
proof -
  have "decimal_digit (CHR ''0'')" by (simp add: decimal_digit_def)
  then have "list_all decimal_digit (replicate (k - length (decimal n)) (CHR ''0''))"
    by (simp add: list_all_iff)
  then show ?thesis by (simp add: padStart_def decimal_digits)
qed

lemma format_length: "calendar_time t \<Longrightarrow> length (format_DDMMYYYYHHmmss t) = 14"
  by (simp add: format_DDMMYYYYHHmmss_def calendar_time_def padStart_2_length)
     (simp add: padStart_def decimal_length_4)

lemma format_digits: "list_all decimal_digit (format_DDMMYYYYHHmmss t)"
  by (simp add: format_DDMMYYYYHHmmss_def padStart_digits)

lemma hex_char_lower: "hex_lower (hex_char n)"
proof -
  have "n mod 16 < length ''0123456789abcdef''" by simp
  then have "''0123456789abcdef'' ! (n mod 16) \<in> set ''0123456789abcdef''" by (rule nth_mem)
  then show ?thesis by (simp only: hex_char_def hex_lower_def) auto
qed

lemma toString_hex_length: "length (toString_hex buf) = 6"
  by (cases buf) (simp add: toString_hex_def hex_byte_def)

lemma toString_hex_lower: "list_all hex_lower (toString_hex buf)"
  by (cases buf) (simp add: toString_hex_def hex_byte_def hex_char_lower)

lemma GenFilename_value:
  assumes "parse url = Some u" and "pathname u = CHR ''/'' # rest"
  shows "GenFilename parse now buf url =
     Inr (hostname u @ ''_'' @ takeWhile (\<lambda>c. c \<noteq> CHR ''/'') rest @ ''_''
          @ format_DDMMYYYYHHmmss now @ ''_'' @ toString_hex buf @ ''.mp4'')"
  using assms
  by (simp add: GenFilename_def UsernameFromUrl_first_segment [of parse url u rest]
      template_string_def)

lemma GenFilename_shape:
  assumes "GenFilename parse now buf url = Inr f"
  shows "\<exists>front. f = front @ toString_hex buf @ ''.mp4''"
proof -
  from assms obtain u user where "parse url = Some u" "UsernameFromUrl parse url = Inr user"
    by (auto simp: GenFilename_def Let_def split: option.splits sum.splits)
  with assms have "f = hostname u @ ''_'' @ template_string user @ ''_''
       @ format_DDMMYYYYHHmmss now @ ''_'' @ toString_hex buf @ ''.mp4''"
    by (simp add: GenFilename_def)
  then have "f = (hostname u @ ''_'' @ template_string user @ ''_''
       @ format_DDMMYYYYHHmmss now @ ''_'') @ toString_hex buf @ ''.mp4''"
    by simp
  then show ?thesis by blast
qed

lemma GenFilename_distinct:
  assumes "GenFilename parse now buf url = Inr f"
    and "GenFilename parse' now' buf' url' = Inr f'"
    and "toString_hex buf \<noteq> toString_hex buf'"
  shows "f \<noteq> f'"
proof
  assume eq: "f = f'"
  from GenFilename_shape [OF assms(1)] obtain a where a: "f = a @ toString_hex buf @ ''.mp4''" by blast
  from GenFilename_shape [OF assms(2)] obtain b where b: "f' = b @ toString_hex buf' @ ''.mp4''" by blast
  have "length (toString_hex buf @ ''.mp4'') = length (toString_hex buf' @ ''.mp4'')"
    by (simp add: toString_hex_length)
  with a b eq have "toString_hex buf @ ''.mp4'' = toString_hex buf' @ ''.mp4''"
    by (metis append_eq_append_conv)
  with assms(3) show False by simp
qed

text \<open>
  C6. For every well-formed source URL (one the parser accepts, whose path starts with a
  slash, as the path of every http or https URL does) and every wall-clock time, the
  generated file name is the URL's hostname, the user (the first segment of the path), a
  timestamp of 14 decimal digits and a random suffix of 6 lower-case hexadecimal digits,
  joined by underscores and followed by \<open>.mp4\<close>; two generated file names with distinct
  random suffixes are distinct, whatever their URLs and times.
\<close>

theorem C6_GenFilename:
  assumes "parse url = Some u" and "pathname u = CHR ''/'' # rest" and "calendar_time now"
  shows "GenFilename parse now buf url =
           Inr (hostname u @ ''_'' @ takeWhile (\<lambda>c. c \<noteq> CHR ''/'') rest @ ''_''
                @ format_DDMMYYYYHHmmss now @ ''_'' @ toString_hex buf @ ''.mp4'')
       \<and> length (format_DDMMYYYYHHmmss now) = 14
       \<and> list_all decimal_digit (format_DDMMYYYYHHmmss now)
       \<and> length (toString_hex buf) = 6
       \<and> list_all hex_lower (toString_hex buf)
       \<and> (\<forall>parse' now' buf' url' f f'.
            GenFilename parse now buf url = Inr f \<and> GenFilename parse' now' buf' url' = Inr f'
              \<and> toString_hex buf \<noteq> toString_hex buf' \<longrightarrow> f \<noteq> f')"
  using GenFilename_value [of parse url u rest now buf, OF assms(1,2)]
    format_length [OF assms(3)] format_digits
    toString_hex_length toString_hex_lower GenFilename_distinct
  by blast

theorem C6_GenFilename_witness:
  "GenFilename (\<lambda>s. if s = ''https://a.b/bob/x''
                     then Some \<lparr>hostname = ''a.b'', pathname = ''/bob/x''\<rparr> else None)
     \<lparr>DD = 1, MM = 2, YYYY = 2020, HH = 12, mm = 0, ss = 59\<rparr> (0, 1, 255) ''https://a.b/bob/x''
   = Inr ''a.b_bob_01022020120059_0001ff.mp4''"
proof -
  let ?parse = "\<lambda>s. if s = ''https://a.b/bob/x''
                     then Some \<lparr>hostname = ''a.b'', pathname = ''/bob/x''\<rparr> else None"
  let ?now = "\<lparr>DD = 1, MM = 2, YYYY = 2020, HH = 12, mm = 0, ss = 59\<rparr>"
  let ?u = "\<lparr>hostname = ''a.b'', pathname = ''/bob/x''\<rparr>"
  have 1: "?parse ''https://a.b/bob/x'' = Some ?u"
    by simp
  have 2: "pathname ?u = CHR ''/'' # ''bob/x''"
    by simp
  have 3: "calendar_time ?now"
    by (simp add: calendar_time_def)
  have 4: "format_DDMMYYYYHHmmss ?now = ''01022020120059''"
    by (simp add: format_DDMMYYYYHHmmss_def padStart_def decimal.simps digit_char_def)
  have 5: "toString_hex (0, 1, 255) = ''0001ff''"
    by (simp add: toString_hex_def hex_byte_def hex_char_def)
  from C6_GenFilename [of ?parse "''https://a.b/bob/x''" ?u "''bob/x''" ?now "(0, 1, 255)", OF 1 2 3]
  have "GenFilename ?parse ?now (0, 1, 255) ''https://a.b/bob/x'' =
      Inr (hostname ?u @ ''_'' @ takeWhile (\<lambda>c. c \<noteq> CHR ''/'') ''bob/x'' @ ''_''
                @ format_DDMMYYYYHHmmss ?now @ ''_'' @ toString_hex (0, 1, 255) @ ''.mp4'')"
    by (rule conjunct1)
  also have "\<dots> = Inr ''a.b_bob_01022020120059_0001ff.mp4''"
    unfolding 4 5 by simp
  finally show ?thesis .
qed

section \<open>Properties of the file names of clips\<close>

text \<open>The matchers split the input into the matched text and the rest.\<close>

lemma greedy_plus_sound:
  "(m, r) \<in> set (greedy_plus P s) \<Longrightarrow> s = m @ r \<and> m \<noteq> [] \<and> list_all P m"
proof (induction s arbitrary: m r)
  case Nil
  then show ?case by simp
next
  case (Cons x xs)
  then show ?case by (auto split: if_splits)
qed

lemma greedy_plus_complete:
  "m \<noteq> [] \<Longrightarrow> list_all P m \<Longrightarrow> (m, r) \<in> set (greedy_plus P (m @ r))"
proof (induction m)
  case Nil
  then show ?case by simp
next
  case (Cons x m)
  show ?case
  proof (cases "m = []")
    case True
    with Cons.prems show ?thesis by simp
  next
    case False
    with Cons have "(m, r) \<in> set (greedy_plus P (m @ r))" by simp
    then have "(x # m, r) \<in> (\<lambda>(m, r). (x # m, r)) ` set (greedy_plus P (m @ r))"
      by force
    with Cons.prems show ?thesis by simp
  qed
qed

lemma exactly_sound:
  "(m, r) \<in> set (exactly n P s) \<Longrightarrow> s = m @ r \<and> length m = n \<and> list_all P m"
proof (induction n P s arbitrary: m r rule: exactly.induct)
  case (1 P s)
  then show ?case by simp
next
  case (2 n P)
  then show ?case by simp
next
  case (3 n P x xs)
  then show ?case by (auto split: if_splits)
qed

lemma exactly_complete:
  "list_all P m \<Longrightarrow> exactly (length m) P (m @ r) = [(m, r)]"
  by (induction m) simp_all

lemma literal_sound: "(m, r) \<in> set (literal l s) \<Longrightarrow> m = l \<and> s = l @ r"
  by (auto simp: literal_def split: if_splits) (metis append_take_drop_id)

lemma literal_complete: "literal l (l @ r) = [(l, r)]"
  by (simp add: literal_def)

lemma bind_nonempty: "x \<in> set xs \<Longrightarrow> f x \<noteq> [] \<Longrightarrow> List.bind xs f \<noteq> []"
  by (auto simp: List.bind_def)

lemma in_set_bind: "y \<in> set (List.bind xs f) \<longleftrightarrow> (\<exists>x \<in> set xs. y \<in> set (f x))"
  by (auto simp: List.bind_def)

lemma timestamp_unique_mp4_sound:
  assumes "((t, g2, g3), r) \<in> set (timestamp_unique_mp4 s)"
  shows "s = t @ g2 @ g3 @ r \<and> length t = 16 \<and> length g2 = 6 \<and> g3 = ''.mp4''"
proof -
  from assms obtain u1 r1 d r2 u2 r3 r4 where
    1: "(u1, r1) \<in> set (literal ''_'' s)" and
    2: "(d, r2) \<in> set (exactly 14 decimal_digit r1)" and
    3: "(u2, r3) \<in> set (literal ''_'' r2)" and
    4: "(g2, r4) \<in> set (exactly 6 hex_lower r3)" and
    5: "(g3, r) \<in> set (literal ''.mp4'' r4)" and
    t: "t = u1 @ d @ u2"
    by (auto simp: timestamp_unique_mp4_def in_set_bind)
  from literal_sound [OF 1] exactly_sound [OF 2] literal_sound [OF 3] exactly_sound [OF 4]
    literal_sound [OF 5] t
  show ?thesis by simp
qed

lemma timestamp_unique_mp4_complete:
  assumes "length ts = 14" "list_all decimal_digit ts" "length hx = 6" "list_all hex_lower hx"
  shows "timestamp_unique_mp4 (name_end ts hx @ r) = [((''_'' @ ts @ ''_'', hx, ''.mp4''), r)]"
proof -
  have a: "literal ''_'' (name_end ts hx @ r) = [(''_'', ts @ ''_'' @ hx @ ''.mp4'' @ r)]"
    using literal_complete [of "''_''" "ts @ ''_'' @ hx @ ''.mp4'' @ r"] by (simp add: name_end_def)
  have b: "exactly 14 decimal_digit (ts @ ''_'' @ hx @ ''.mp4'' @ r) = [(ts, ''_'' @ hx @ ''.mp4'' @ r)]"
    using exactly_complete [OF assms(2), of "''_'' @ hx @ ''.mp4'' @ r"] assms(1) by simp
  have c: "literal ''_'' (''_'' @ hx @ ''.mp4'' @ r) = [(''_'', hx @ ''.mp4'' @ r)]"
    by (rule literal_complete)
  have d: "exactly 6 hex_lower (hx @ ''.mp4'' @ r) = [(hx, ''.mp4'' @ r)]"
    using exactly_complete [OF assms(4), of "''.mp4'' @ r"] assms(3) by simp
  have e: "literal ''.mp4'' (''.mp4'' @ r) = [(''.mp4'', r)]"
    by (rule literal_complete)
  show ?thesis
    unfolding timestamp_unique_mp4_def a by (simp only: List.bind_simps b c d e split append_Nil2)
qed

lemma timestamp_unique_mp4_short: "length s < 26 \<Longrightarrow> timestamp_unique_mp4 s = []"
proof (rule ccontr)
  assume short: "length s < 26" and "timestamp_unique_mp4 s \<noteq> []"
  then obtain t g2 g3 r where "((t, g2, g3), r) \<in> set (timestamp_unique_mp4 s)"
    by (metis list.set_intros(1) neq_Nil_conv prod_cases3 surj_pair)
  from timestamp_unique_mp4_sound [OF this] short show False by simp
qed


lemma ends_at_end_bind:
  "(\<And>x. x \<in> set xs \<Longrightarrow> ends_at_end (f x)) \<Longrightarrow> ends_at_end (List.bind xs f)"
proof (induction xs)
  case Nil
  show ?case by (simp add: ends_at_end_def)
next
  case (Cons x xs)
  then have "ends_at_end (f x)" and "ends_at_end (List.bind xs f)" by simp_all
  then show ?case
    by (cases "f x") (auto simp: ends_at_end_def)
qed

lemma drains_tl: "length T = 26 \<Longrightarrow> drains T (x # s) \<Longrightarrow> drains T s"
proof -
  assume T: "length T = 26" and d: "drains T (x # s)"
  show ?thesis
  proof (cases "length (x # s) \<le> 26")
    case True
    then show ?thesis by (simp add: drains_def)
  next
    case False
    with d obtain y where y: "y \<noteq> []" "list_all any_char y" "x # s = y @ T"
      by (auto simp: drains_def)
    then obtain y' where y': "y = x # y'" by (cases y) auto
    with y have s: "s = y' @ T" and "list_all any_char y'" by simp_all
    then show ?thesis using T by (cases "y' = []") (auto simp: drains_def)
  qed
qed

lemma drains_drop: "length T = 26 \<Longrightarrow> drains T (m @ s) \<Longrightarrow> drains T s"
  by (induction m) (auto dest: drains_tl)

lemma user_and_end_Cons:
  "any_char x \<Longrightarrow>
     user_and_end F (x # s) =
       user_and_end (\<lambda>b. F (x # b)) s @ map (F [x]) (timestamp_unique_mp4 s)"
  by (simp add: user_and_end_def List.bind_def map_concat comp_def case_prod_unfold)

lemma user_and_end_short: "length s \<le> 26 \<Longrightarrow> user_and_end F s = []"
proof -
  assume short: "length s \<le> 26"
  have "timestamp_unique_mp4 r = []" if "(b, r) \<in> set (greedy_plus any_char s)" for b r
  proof -
    from greedy_plus_sound [OF that] have "s = b @ r" and "b \<noteq> []" by simp_all
    with short have "length r < 26" by (cases b) simp_all
    then show ?thesis by (rule timestamp_unique_mp4_short)
  qed
  then show ?thesis
    by (auto simp: user_and_end_def List.bind_def)
qed

lemma user_and_end_first:
  assumes T: "timestamp_unique_mp4 T = [(g, [])]" and len: "length T = 26"
    and F: "\<And>b w. snd (F b w) = snd w"
  shows "y \<noteq> [] \<Longrightarrow> list_all any_char y \<Longrightarrow>
     user_and_end F (y @ T) \<noteq> [] \<and> snd (hd (user_and_end F (y @ T))) = []"
  using F
proof (induction y arbitrary: F)
  case Nil
  then show ?case by simp
next
  case (Cons x y)
  from Cons.prems have x: "any_char x" and y: "list_all any_char y" by simp_all
  have step: "user_and_end F ((x # y) @ T) =
      user_and_end (\<lambda>b. F (x # b)) (y @ T) @ map (F [x]) (timestamp_unique_mp4 (y @ T))"
    using user_and_end_Cons [OF x, of F "y @ T"] by simp
  show ?case
  proof (cases "y = []")
    case True
    have "user_and_end (\<lambda>b. F (x # b)) T = []"
      using len by (simp add: user_and_end_short)
    with step True T show ?thesis by (simp add: Cons.prems(3))
  next
    case False
    have "user_and_end (\<lambda>b. F (x # b)) (y @ T) \<noteq> []
        \<and> snd (hd (user_and_end (\<lambda>b. F (x # b)) (y @ T))) = []"
      using False y by (intro Cons.IH) (simp_all add: Cons.prems(3))
    with step show ?thesis by simp
  qed
qed

lemma user_and_end_ends:
  assumes "timestamp_unique_mp4 T = [(g, [])]" and "length T = 26"
    and "\<And>b w. snd (F b w) = snd w" and "drains T s"
  shows "ends_at_end (user_and_end F s)"
proof (cases "length s \<le> 26")
  case True
  then show ?thesis by (simp add: user_and_end_short ends_at_end_def)
next
  case False
  with assms(4) obtain y where y: "y \<noteq> []" "list_all any_char y" "s = y @ T"
    by (auto simp: drains_def)
  from user_and_end_first [OF assms(1,2), of F y, OF assms(3) y(1,2)] y(3)
  show ?thesis
    by (cases "user_and_end F s") (auto simp: ends_at_end_def)
qed

lemma clip_regex_user_and_end:
  "clip_regex s =
     List.bind (greedy_plus word_plus_dot s) (\<lambda>(a, r1).
     List.bind (literal ''_'' r1) (\<lambda>(u, r2).
       user_and_end (\<lambda>b ((t, g2, g3), r). ((a @ u @ b @ t, g2, g3), r)) r2))"
  by (simp add: clip_regex_def user_and_end_def)

lemma clip_regex_ends:
  assumes T: "timestamp_unique_mp4 T = [(g, [])]" and len: "length T = 26" and s: "drains T s"
  shows "ends_at_end (clip_regex s)"
  unfolding clip_regex_user_and_end
proof (intro ends_at_end_bind)
  fix w assume w: "w \<in> set (greedy_plus word_plus_dot s)"
  obtain a r1 where w_def: "w = (a, r1)" by (cases w)
  with w greedy_plus_sound [of a r1 word_plus_dot s] have "s = a @ r1" by simp
  with s len have r1: "drains T r1" by (auto dest: drains_drop)
  show "ends_at_end (case w of (a, r1) \<Rightarrow>
           List.bind (literal ''_'' r1) (\<lambda>(u, r2).
             user_and_end (\<lambda>b ((t, g2, g3), r). ((a @ u @ b @ t, g2, g3), r)) r2))"
    unfolding w_def split
  proof (intro ends_at_end_bind)
    fix v assume v: "v \<in> set (literal ''_'' r1)"
    obtain u r2 where v_def: "v = (u, r2)" by (cases v)
    with v literal_sound [of u r2 "''_''" r1] have "r1 = u @ r2" by simp
    with r1 len have "drains T r2" by (auto dest: drains_drop)
    then show "ends_at_end (case v of (u, r2) \<Rightarrow>
             user_and_end (\<lambda>b ((t, g2, g3), r). ((a @ u @ b @ t, g2, g3), r)) r2)"
      unfolding v_def split
      by (intro user_and_end_ends [OF T len]) (auto simp: case_prod_unfold)
  qed
qed

lemma clip_regex_sound:
  assumes "((g1, g2, g3), r) \<in> set (clip_regex s)"
  shows "\<exists>a b t. g1 = a @ ''_'' @ b @ t \<and> a \<noteq> [] \<and> list_all word_plus_dot a \<and> b \<noteq> []
           \<and> length t = 16 \<and> length g2 = 6 \<and> g3 = ''.mp4'' \<and> s = g1 @ g2 @ g3 @ r"
proof -
  from assms obtain a r1 u r2 b r3 t where
    1: "(a, r1) \<in> set (greedy_plus word_plus_dot s)" and
    2: "(u, r2) \<in> set (literal ''_'' r1)" and
    3: "(b, r3) \<in> set (greedy_plus any_char r2)" and
    4: "((t, g2, g3), r) \<in> set (timestamp_unique_mp4 r3)" and
    g1: "g1 = a @ u @ b @ t"
    by (auto simp: clip_regex_def in_set_bind)
  from greedy_plus_sound [OF 1] literal_sound [OF 2] greedy_plus_sound [OF 3]
    timestamp_unique_mp4_sound [OF 4] g1
  show ?thesis by auto
qed

lemma clip_regex_complete:
  assumes "word_plus_dot c" and "b \<noteq> []" and "list_all any_char b"
    and "timestamp_unique_mp4 T \<noteq> []"
  shows "clip_regex (c # ''_'' @ b @ T) \<noteq> []"
proof -
  have 1: "([c], ''_'' @ b @ T) \<in> set (greedy_plus word_plus_dot ([c] @ ''_'' @ b @ T))"
    using assms(1) by (intro greedy_plus_complete) simp_all
  have 2: "literal ''_'' (''_'' @ b @ T) = [(''_'', b @ T)]"
    by (rule literal_complete)
  have 3: "(b, T) \<in> set (greedy_plus any_char (b @ T))"
    using assms(2,3) by (rule greedy_plus_complete)
  have "user_and_end F (b @ T) \<noteq> []" for F
    unfolding user_and_end_def using 3 assms(4) by (intro bind_nonempty [of "(b, T)"]) simp_all
  then have "List.bind (literal ''_'' (''_'' @ b @ T)) (\<lambda>(u, r2).
       user_and_end (\<lambda>b ((t, g2, g3), r). (([c] @ u @ b @ t, g2, g3), r)) r2) \<noteq> []"
    unfolding 2 by simp
  with 1 show ?thesis
    unfolding clip_regex_user_and_end
    by (intro bind_nonempty [of "([c], ''_'' @ b @ T)"]) simp_all
qed


text \<open>The search for the leftmost match.\<close>

lemma exec_None:
  "exec front s = None \<Longrightarrow> s = q @ s' \<Longrightarrow> clip_regex s' = []"
proof (induction s arbitrary: front q)
  case Nil
  then show ?case by (auto split: list.splits)
next
  case (Cons x xs)
  from Cons.prems(1) have here: "clip_regex (x # xs) = []" and "exec (front @ [x]) xs = None"
    by (auto split: list.splits)
  show ?case
  proof (cases q)
    case Nil
    with Cons.prems(2) here show ?thesis by simp
  next
    case (Cons y q')
    with Cons.prems(2) have "xs = q' @ s'" by simp
    with \<open>exec (front @ [x]) xs = None\<close> show ?thesis by (rule Cons.IH)
  qed
qed

lemma exec_Some:
  "exec front s = Some (fr, g, r) \<Longrightarrow>
     \<exists>q s' ws. s = q @ s' \<and> fr = front @ q \<and> clip_regex s' = (g, r) # ws"
proof (induction s arbitrary: front)
  case Nil
  then have "\<exists>ws. clip_regex [] = (g, r) # ws \<and> fr = front"
    by (auto split: list.splits)
  then show ?case by auto
next
  case (Cons x xs)
  show ?case
  proof (cases "clip_regex (x # xs)")
    case Nil
    with Cons.prems have "exec (front @ [x]) xs = Some (fr, g, r)" by simp
    from Cons.IH [OF this] obtain q s' ws where
      "xs = q @ s'" "fr = (front @ [x]) @ q" "clip_regex s' = (g, r) # ws" by blast
    then have "x # xs = (x # q) @ s' \<and> fr = front @ (x # q) \<and> clip_regex s' = (g, r) # ws"
      by simp
    then show ?thesis by blast
  next
    case (Cons w ws)
    with Cons.prems have "w = (g, r)" and "fr = front" by (auto split: prod.splits)
    with Cons have "x # xs = [] @ (x # xs) \<and> fr = front @ [] \<and> clip_regex (x # xs) = (g, r) # ws"
      by simp
    then show ?thesis by blast
  qed
qed

text \<open>The replacement text \<open>$1\<close>, six hexadecimal digits, \<open>$3\<close>, with three groups.\<close>

lemma GetSubstitution_copy:
  assumes "c \<noteq> CHR ''$''"
  shows "GetSubstitution captures (c # t) = c # GetSubstitution captures t"
proof (cases t)
  case Nil
  then show ?thesis by simp
next
  case (Cons d t1)
  with assms show ?thesis by (cases t1) simp_all
qed

lemma hex_lower_not_dollar: "hex_lower c \<Longrightarrow> c \<noteq> CHR ''$''"
  by (auto simp: hex_lower_def)

lemma GetSubstitution_hex:
  "list_all hex_lower h \<Longrightarrow>
     GetSubstitution captures (h @ t) = h @ GetSubstitution captures t"
  by (induction h) (simp_all add: GetSubstitution_copy hex_lower_not_dollar)

lemma GetSubstitution_template:
  assumes "list_all hex_lower h" and "h \<noteq> []"
  shows "GetSubstitution [g1, g2, g3] (''$1'' @ h @ ''$3'') = g1 @ h @ g3"
proof -
  from assms(2) obtain e t where h: "h = e # t" by (cases h) auto
  have one: "one_digit [g1, g2, g3] (CHR ''1'') = g1"
    by (simp add: one_digit_def digit_value_def)
  have three: "GetSubstitution [g1, g2, g3] ''$3'' = g3"
    by (simp add: one_digit_def digit_value_def decimal_digit_def)
  have "GetSubstitution [g1, g2, g3] (CHR ''$'' # CHR ''1'' # e # (t @ ''$3'')) =
      one_digit [g1, g2, g3] (CHR ''1'') @ GetSubstitution [g1, g2, g3] (e # (t @ ''$3''))"
    by (simp add: decimal_digit_def digit_value_def)
  also have "\<dots> = g1 @ GetSubstitution [g1, g2, g3] (h @ ''$3'')"
    by (simp add: one h)
  also have "\<dots> = g1 @ h @ g3"
    using GetSubstitution_hex [OF assms(1), of "[g1, g2, g3]" "''$3''"] three by simp
  finally show ?thesis by (simp add: h)
qed

lemma has_separator_intro:
  "word_plus_dot c \<Longrightarrow> b \<noteq> [] \<Longrightarrow> has_separator (q @ c # CHR ''_'' # b)"
proof (induction q)
  case Nil
  then show ?case by (cases b) simp_all
next
  case (Cons x q)
  then have rec: "has_separator (q @ c # CHR ''_'' # b)" by simp
  obtain d e r where "q @ c # CHR ''_'' # b = d # e # r"
    by (cases q; cases "tl q") auto
  with rec show ?case by simp
qed

lemma has_separator_elim:
  "has_separator s \<Longrightarrow> \<exists>q c b. s = q @ c # CHR ''_'' # b \<and> word_plus_dot c \<and> b \<noteq> []"
proof (induction s rule: has_separator.induct)
  case (1 c d e r)
  show ?case
  proof (cases "word_plus_dot c \<and> d = CHR ''_''")
    case True
    then have "c # d # e # r = [] @ c # CHR ''_'' # (e # r) \<and> word_plus_dot c \<and> e # r \<noteq> []"
      by simp
    then show ?thesis by blast
  next
    case False
    with 1 obtain q c' b where "d # e # r = q @ c' # CHR ''_'' # b" "word_plus_dot c'" "b \<noteq> []"
      by auto
    then have "c # d # e # r = (c # q) @ c' # CHR ''_'' # b \<and> word_plus_dot c' \<and> b \<noteq> []"
      by simp
    then show ?thesis by blast
  qed
qed simp_all


lemma name_end_length: "length ts = 14 \<Longrightarrow> length hx = 6 \<Longrightarrow> length (name_end ts hx) = 26"
  by (simp add: name_end_def)

lemma drains_name: "list_all any_char P \<Longrightarrow> length T = 26 \<Longrightarrow> drains T (P @ T)"
  by (cases "P = []") (auto simp: drains_def)

text \<open>What the first match of a generated name is, when there is one.\<close>

lemma exec_generated:
  assumes ts: "length ts = 14" "list_all decimal_digit ts"
    and hx: "length hx = 6" "list_all hex_lower hx"
    and P: "list_all any_char P"
    and ex: "exec [] (P @ name_end ts hx) = Some (fr, (g1, g2, g3), r)"
  shows "r = [] \<and> g2 = hx \<and> g3 = ''.mp4'' \<and> fr @ g1 = P @ ''_'' @ ts @ ''_''
     \<and> (\<exists>a b. P = fr @ a @ ''_'' @ b \<and> a \<noteq> [] \<and> list_all word_plus_dot a \<and> b \<noteq> [])"
proof -
  let ?T = "name_end ts hx"
  have len: "length ?T = 26" using ts(1) hx(1) by (rule name_end_length)
  have T: "timestamp_unique_mp4 ?T = [((''_'' @ ts @ ''_'', hx, ''.mp4''), [])]"
    using timestamp_unique_mp4_complete [OF ts hx, of "[]"] by simp
  from exec_Some [OF ex] obtain q s' ws where
    split: "P @ ?T = q @ s'" and fr: "fr = q" and first: "clip_regex s' = ((g1, g2, g3), r) # ws"
    by auto
  from drains_name [OF P len] split have "drains ?T s'"
    using drains_drop [OF len, of q s'] by simp
  from clip_regex_ends [OF T len this] first have r: "r = []"
    by (simp add: ends_at_end_def)
  from first have "((g1, g2, g3), r) \<in> set (clip_regex s')" by simp
  from clip_regex_sound [OF this] obtain a b t where
    g1: "g1 = a @ ''_'' @ b @ t" and a: "a \<noteq> []" "list_all word_plus_dot a" and b: "b \<noteq> []"
    and t: "length t = 16" and g2: "length g2 = 6" and g3: "g3 = ''.mp4''"
    and s': "s' = g1 @ g2 @ g3 @ r"
    by blast
  from split s' r g3 fr have whole: "P @ ?T = fr @ g1 @ g2 @ ''.mp4''" by simp
  then have "(P @ ''_'' @ ts @ ''_'') @ (hx @ ''.mp4'') = (fr @ g1) @ (g2 @ ''.mp4'')"
    by (simp add: name_end_def)
  moreover have "length (hx @ ''.mp4'') = length (g2 @ ''.mp4'')"
    using hx(1) g2 by simp
  ultimately have both: "P @ ''_'' @ ts @ ''_'' = fr @ g1 \<and> hx @ ''.mp4'' = g2 @ ''.mp4''"
    using append_eq_append_conv
      [of "P @ ''_'' @ ts @ ''_''" "fr @ g1" "hx @ ''.mp4''" "g2 @ ''.mp4''"]
    by blast
  then have front: "fr @ g1 = P @ ''_'' @ ts @ ''_''" and suffix: "g2 = hx"
    by simp_all
  from front g1 have "P @ (''_'' @ ts @ ''_'') = (fr @ a @ ''_'' @ b) @ t" by simp
  moreover have "length (''_'' @ ts @ ''_'') = length t" using ts(1) t by simp
  ultimately have "P = fr @ a @ ''_'' @ b \<and> ''_'' @ ts @ ''_'' = t"
    using append_eq_append_conv [of P "fr @ a @ ''_'' @ b" "''_'' @ ts @ ''_''" t]
    by blast
  then have "\<exists>a b. P = fr @ a @ ''_'' @ b \<and> a \<noteq> [] \<and> list_all word_plus_dot a \<and> b \<noteq> []"
    using a b by blast
  with r suffix g3 front show ?thesis by blast
qed

lemma exec_generated_iff:
  assumes ts: "length ts = 14" "list_all decimal_digit ts"
    and hx: "length hx = 6" "list_all hex_lower hx"
    and P: "list_all any_char P"
  shows "exec [] (P @ name_end ts hx) \<noteq> None \<longleftrightarrow> has_separator P"
proof
  assume "exec [] (P @ name_end ts hx) \<noteq> None"
  then obtain fr g1 g2 g3 r where "exec [] (P @ name_end ts hx) = Some (fr, (g1, g2, g3), r)"
    by (metis not_None_eq prod_cases3 surj_pair)
  from exec_generated [OF ts hx P this] obtain a b where
    "P = fr @ a @ ''_'' @ b" "a \<noteq> []" "list_all word_plus_dot a" "b \<noteq> []" by blast
  then have "P = (fr @ butlast a) @ last a # CHR ''_'' # b" and "word_plus_dot (last a)"
    by (simp_all add: list_all_iff)
  with \<open>b \<noteq> []\<close> show "has_separator P"
    using has_separator_intro [of "last a" b "fr @ butlast a"] by simp
next
  assume "has_separator P"
  from has_separator_elim [OF this] obtain q c b where
    Pq: "P = q @ c # CHR ''_'' # b" and c: "word_plus_dot c" and b: "b \<noteq> []" by blast
  from P Pq have "list_all any_char b" by simp
  have "timestamp_unique_mp4 (name_end ts hx) \<noteq> []"
    using timestamp_unique_mp4_complete [OF ts hx, of "[]"] by simp
  from clip_regex_complete [OF c b \<open>list_all any_char b\<close> this]
  have found: "clip_regex (c # ''_'' @ b @ name_end ts hx) \<noteq> []" .
  show "exec [] (P @ name_end ts hx) \<noteq> None"
  proof
    assume "exec [] (P @ name_end ts hx) = None"
    moreover have "P @ name_end ts hx = q @ (c # ''_'' @ b @ name_end ts hx)"
      using Pq by simp
    ultimately have "clip_regex (c # ''_'' @ b @ name_end ts hx) = []"
      by (rule exec_None)
    with found show False by simp
  qed
qed

lemma GenClipFilename_generated:
  assumes ts: "length ts = 14" "list_all decimal_digit ts"
    and hx: "length hx = 6" "list_all hex_lower hx"
    and P: "list_all any_char P"
  shows "GenClipFilename buf (P @ name_end ts hx) =
     (if has_separator P then P @ name_end ts (toString_hex buf) else P @ name_end ts hx)"
proof (cases "has_separator P")
  case False
  with exec_generated_iff [OF ts hx P] have "\<not> exec [] (P @ name_end ts hx) \<noteq> None" by blast
  then have "exec [] (P @ name_end ts hx) = None" by blast
  with False show ?thesis by (simp add: GenClipFilename_def)
next
  case True
  with exec_generated_iff [OF ts hx P] obtain fr g1 g2 g3 r where
    ex: "exec [] (P @ name_end ts hx) = Some (fr, (g1, g2, g3), r)"
    by (metis not_None_eq prod_cases3 surj_pair)
  from exec_generated [OF ts hx P ex]
  have r: "r = []" and g3: "g3 = ''.mp4''" and front: "fr @ g1 = P @ ''_'' @ ts @ ''_''"
    by simp_all
  have sub: "GetSubstitution [g1, g2, g3] (''$1'' @ toString_hex buf @ ''$3'') =
      g1 @ toString_hex buf @ g3"
    using toString_hex_lower [of buf] toString_hex_length [of buf]
    by (intro GetSubstitution_template) auto
  have "GenClipFilename buf (P @ name_end ts hx) = fr @ (g1 @ toString_hex buf @ g3) @ r"
    unfolding GenClipFilename_def Let_def ex option.case prod.case sub ..
  also have "\<dots> = (fr @ g1) @ toString_hex buf @ ''.mp4''"
    by (simp add: r g3)
  also have "\<dots> = P @ name_end ts (toString_hex buf)"
    by (simp only: front) (simp add: name_end_def)
  finally show ?thesis using True by simp
qed

text \<open>
  When \<open>GenClipFilename\<close> rewrites a name returned by \<open>GenFilename\<close>, for a URL whose
  hostname and user hold no line terminator: the six hexadecimal digits before \<open>.mp4\<close>
  are replaced by the fresh ones when the text hostname, underscore, user has a separator
  (as it has whenever the hostname ends in a character of \<open>[\w+.]\<close> and the user is not
  empty), and the name comes back as it is when that text has none.
\<close>

lemma GenClipFilename_of_GenFilename:
  assumes "parse url = Some u" and "pathname u = CHR ''/'' # rest"
    and "user = takeWhile (\<lambda>c. c \<noteq> CHR ''/'') rest" and "calendar_time now"
    and "list_all any_char (hostname u)" and "list_all any_char user"
  shows "(\<exists>f. GenFilename parse now buf url = Inr f
            \<and> GenClipFilename buf' f =
                (if has_separator (hostname u @ ''_'' @ user)
                 then hostname u @ ''_'' @ user @ ''_'' @ format_DDMMYYYYHHmmss now @ ''_''
                      @ toString_hex buf' @ ''.mp4''
                 else f))
       \<and> (hostname u \<noteq> [] \<and> word_plus_dot (last (hostname u)) \<and> user \<noteq> []
            \<longrightarrow> has_separator (hostname u @ ''_'' @ user))"
proof (intro conjI impI)
  let ?P = "hostname u @ ''_'' @ user" and ?ts = "format_DDMMYYYYHHmmss now"
  have f: "GenFilename parse now buf url = Inr (?P @ name_end ?ts (toString_hex buf))"
    using GenFilename_value [of parse url u rest now buf, OF assms(1,2)] assms(3)
    by (simp add: name_end_def)
  have P: "list_all any_char ?P"
    using assms(5,6) by (simp add: any_char_def)
  have "GenClipFilename buf' (?P @ name_end ?ts (toString_hex buf)) =
      (if has_separator ?P then ?P @ name_end ?ts (toString_hex buf')
       else ?P @ name_end ?ts (toString_hex buf))"
    using format_length [OF assms(4)] format_digits toString_hex_length toString_hex_lower P
    by (rule GenClipFilename_generated)
  with f show "\<exists>f. GenFilename parse now buf url = Inr f
            \<and> GenClipFilename buf' f =
                (if has_separator (hostname u @ ''_'' @ user)
                 then hostname u @ ''_'' @ user @ ''_'' @ format_DDMMYYYYHHmmss now @ ''_''
                      @ toString_hex buf' @ ''.mp4''
                 else f)"
    by (simp add: name_end_def)
next
  assume h: "hostname u \<noteq> [] \<and> word_plus_dot (last (hostname u)) \<and> user \<noteq> []"
  then have eq: "hostname u @ ''_'' @ user = butlast (hostname u) @ last (hostname u) # CHR ''_'' # user"
    by simp
  from h have "has_separator (butlast (hostname u) @ last (hostname u) # CHR ''_'' # user)"
    by (intro has_separator_intro) simp_all
  then show "has_separator (hostname u @ ''_'' @ user)"
    by (simp only: eq)
qed

text \<open>
  C10. For every file name returned by \<open>GenFilename\<close>, \<open>GenClipFilename\<close> is to return
  the name with its six hexadecimal digits replaced by the fresh ones. The code does not at
  the name generated for \<open>https://a.b/\<close>, whose user is empty: the name comes back with
  its old suffix \<open>000000\<close>, not with the fresh suffix \<open>ffffff\<close>. The same happens for a
  hostname that does not end in a character of \<open>[\w+.]\<close>.
\<close>

theorem C10_GenClipFilename_keeps_suffix:
  "GenFilename (\<lambda>s. if s = ''https://a.b/'' then Some \<lparr>hostname = ''a.b'', pathname = ''/''\<rparr> else None)
     \<lparr>DD = 1, MM = 2, YYYY = 2020, HH = 12, mm = 0, ss = 59\<rparr> (0, 0, 0) ''https://a.b/''
     = Inr ''a.b__01022020120059_000000.mp4''
   \<and> toString_hex (255, 255, 255) = ''ffffff''
   \<and> GenClipFilename (255, 255, 255) ''a.b__01022020120059_000000.mp4''
     = ''a.b__01022020120059_000000.mp4''
   \<and> GenClipFilename (255, 255, 255) ''a.b__01022020120059_000000.mp4''
     \<noteq> ''a.b__01022020120059_ffffff.mp4''
   \<and> GenClipFilename (255, 255, 255) ''[::1]_bob_01022020120059_000000.mp4''
     = ''[::1]_bob_01022020120059_000000.mp4''"
proof -
  let ?parse = "\<lambda>s. if s = ''https://a.b/'' then Some \<lparr>hostname = ''a.b'', pathname = ''/''\<rparr> else None"
  let ?now = "\<lparr>DD = 1, MM = 2, YYYY = 2020, HH = 12, mm = 0, ss = 59\<rparr>"
  have t: "format_DDMMYYYYHHmmss ?now = ''01022020120059''"
    by (simp add: format_DDMMYYYYHHmmss_def padStart_def decimal.simps digit_char_def)
  have h: "toString_hex (0, 0, 0) = ''000000''"
    by (simp add: toString_hex_def hex_byte_def hex_char_def)
  have h': "toString_hex (255, 255, 255) = ''ffffff''"
    by (simp add: toString_hex_def hex_byte_def hex_char_def)
  have 1: "?parse ''https://a.b/'' = Some \<lparr>hostname = ''a.b'', pathname = ''/''\<rparr>"
    by simp
  have 2: "pathname \<lparr>hostname = ''a.b'', pathname = ''/''\<rparr> = CHR ''/'' # []"
    by simp
  have f: "GenFilename ?parse ?now (0, 0, 0) ''https://a.b/'' = Inr ''a.b__01022020120059_000000.mp4''"
    using GenFilename_value [of ?parse "''https://a.b/''" _ "[]" ?now "(0, 0, 0)", OF 1 2]
    unfolding t h by simp
  have c: "GenClipFilename (255, 255, 255) ''a.b__01022020120059_000000.mp4''
     = ''a.b__01022020120059_000000.mp4''"
    by code_simp
  have d: "GenClipFilename (255, 255, 255) ''[::1]_bob_01022020120059_000000.mp4''
     = ''[::1]_bob_01022020120059_000000.mp4''"
    by code_simp
  from f h' c d show ?thesis by simp
qed

section \<open>Properties of the start-up\<close>

lemma FindPlugin_None: "FindPlugin n reg = None \<longleftrightarrow> n \<notin> plugin_names_of reg"
  by (auto simp: FindPlugin_def plugin_names_of_def find_None_iff)

lemma set_plugin_state_names: "map name (set_plugin_state x ps) = map name ps"
  by (induction ps) simp_all

lemma plugin_names_of_set_plugin_state:
  "plugin_names_of (set_plugin_state x ps) = plugin_names_of ps"
proof -
  have "set (map name (set_plugin_state x ps)) = set (map name ps)"
    by (simp only: set_plugin_state_names)
  then show ?thesis by (simp add: plugin_names_of_def)
qed

lemma load_plugin_keeps:
  "plugin_names_of (registry (load_plugin x app)) = plugin_names_of (registry app)"
  "observables (load_plugin x app) = observables app"
  "app_log (load_plugin x app) = app_log app"
  "storage (load_plugin x app) = storage app"
  "files (load_plugin x app) = files app"
  by (simp_all add: load_plugin_def plugin_names_of_set_plugin_state split: option.splits)

lemma fold_load_plugin_keeps:
  "plugin_names_of (registry (fold load_plugin xs app)) = plugin_names_of (registry app)
   \<and> observables (fold load_plugin xs app) = observables app
   \<and> app_log (fold load_plugin xs app) = app_log app
   \<and> storage (fold load_plugin xs app) = storage app
   \<and> files (fold load_plugin xs app) = files app"
  by (induction xs arbitrary: app) (simp_all add: load_plugin_keeps)

lemma set_ReorderPlugins: "set (ReorderPlugins ids reg) = set reg"
  by (auto simp: ReorderPlugins_def)

lemma plugin_names_of_ReorderPlugins:
  "plugin_names_of (ReorderPlugins ids reg) = plugin_names_of reg"
  by (simp add: plugin_names_of_def set_ReorderPlugins)

lemma find_plugins_Inr:
  "(\<exists>ps. find_plugins ns reg = Inr ps) \<longleftrightarrow> set ns \<subseteq> plugin_names_of reg"
proof (induction ns)
  case Nil
  show ?case by simp
next
  case (Cons n ns)
  show ?case
  proof (cases "FindPlugin n reg")
    case None
    then show ?thesis by (simp add: FindPlugin_None [symmetric])
  next
    case (Some p)
    then have "n \<in> plugin_names_of reg"
      using FindPlugin_None [of n reg] by auto
    with Some Cons show ?thesis
      by (cases "find_plugins ns reg") auto
  qed
qed

lemma find_plugins_Inl:
  "find_plugins ns reg = Inl n \<Longrightarrow> n \<in> set ns \<and> n \<notin> plugin_names_of reg"
proof (induction ns)
  case Nil
  then show ?case by simp
next
  case (Cons m ns)
  then show ?case
    by (auto simp: FindPlugin_None [symmetric] split: option.splits sum.splits)
qed

lemma load_observable_keeps:
  "registry (load_observable x app) = registry app"
  "storage (load_observable x app) = storage app"
  "files (load_observable x app) = files app"
  "set (app_log (load_observable x app)) \<supseteq> set (app_log app)"
  by (auto simp: load_observable_def split: sum.splits)

lemma load_observable_dom:
  "dom (observables (load_observable x app)) =
     dom (observables app)
       \<union> (if set (plugin_names x) \<subseteq> plugin_names_of (registry app) then {obs_url x} else {})"
proof (cases "find_plugins (plugin_names x) (registry app)")
  case (Inl n)
  then have "\<not> set (plugin_names x) \<subseteq> plugin_names_of (registry app)"
    using find_plugins_Inr [of "plugin_names x" "registry app"] by auto
  with Inl show ?thesis by (simp add: load_observable_def)
next
  case (Inr ps)
  then have "set (plugin_names x) \<subseteq> plugin_names_of (registry app)"
    using find_plugins_Inr [of "plugin_names x" "registry app"] by auto
  with Inr show ?thesis by (simp add: load_observable_def)
qed

lemma load_observable_logs:
  assumes "\<not> set (plugin_names x) \<subseteq> plugin_names_of (registry app)"
  shows "\<exists>n \<in> set (plugin_names x). n \<notin> plugin_names_of (registry app)
           \<and> missing_plugin_message x n \<in> set (app_log (load_observable x app))"
proof (cases "find_plugins (plugin_names x) (registry app)")
  case (Inl n)
  from find_plugins_Inl [OF Inl] Inl show ?thesis
    by (auto simp: load_observable_def missing_plugin_message_def)
next
  case (Inr ps)
  with assms find_plugins_Inr [of "plugin_names x" "registry app"] show ?thesis by auto
qed

lemma fold_load_observable_keeps:
  "registry (fold load_observable xs app) = registry app
   \<and> storage (fold load_observable xs app) = storage app
   \<and> files (fold load_observable xs app) = files app
   \<and> set (app_log app) \<subseteq> set (app_log (fold load_observable xs app))"
proof (induction xs arbitrary: app)
  case Nil
  show ?case by simp
next
  case (Cons x xs)
  from Cons [of "load_observable x app"] load_observable_keeps [where x = x and app = app]
  show ?case by auto
qed

lemma fold_load_observable_dom:
  "dom (observables (fold load_observable xs app)) =
     dom (observables app)
       \<union> {obs_url x | x. x \<in> set xs \<and> set (plugin_names x) \<subseteq> plugin_names_of (registry app)}"
proof (induction xs arbitrary: app)
  case Nil
  show ?case by simp
next
  case (Cons x xs)
  have "dom (observables (fold load_observable (x # xs) app)) =
      dom (observables (load_observable x app))
        \<union> {obs_url y | y. y \<in> set xs \<and> set (plugin_names y) \<subseteq> plugin_names_of (registry app)}"
    using Cons [of "load_observable x app"] by (simp add: load_observable_keeps)
  then show ?case
    by (auto simp: load_observable_dom split: if_splits)
qed

lemma fold_load_observable_logs:
  assumes "x \<in> set xs" and "\<not> set (plugin_names x) \<subseteq> plugin_names_of (registry app)"
  shows "\<exists>n \<in> set (plugin_names x). n \<notin> plugin_names_of (registry app)
           \<and> missing_plugin_message x n \<in> set (app_log (fold load_observable xs app))"
  using assms
proof (induction xs arbitrary: app)
  case Nil
  then show ?case by simp
next
  case (Cons y xs)
  show ?case
  proof (cases "x = y")
    case True
    from load_observable_logs [OF Cons.prems(2)] obtain n where
      n: "n \<in> set (plugin_names x)" "n \<notin> plugin_names_of (registry app)"
         "missing_plugin_message x n \<in> set (app_log (load_observable x app))" by blast
    from fold_load_observable_keeps [of xs "load_observable x app"] n(3)
    have "missing_plugin_message x n \<in> set (app_log (fold load_observable xs (load_observable x app)))"
      by blast
    with n True show ?thesis by auto
  next
    case False
    with Cons.prems have "x \<in> set xs" by simp
    moreover have "\<not> set (plugin_names x) \<subseteq> plugin_names_of (registry (load_observable y app))"
      using Cons.prems(2) by (simp add: load_observable_keeps)
    ultimately show ?thesis
      using Cons.IH [of "load_observable y app"] by (simp add: load_observable_keeps)
  qed
qed



lemma FindPlugin_Some: "FindPlugin n reg = Some p \<Longrightarrow> name p = n \<and> p \<in> set reg"
  by (auto simp: FindPlugin_def find_Some_iff)

lemma find_plugins_found:
  "find_plugins ns reg = Inr ps \<Longrightarrow> map name ps = ns \<and> set ps \<subseteq> set reg"
proof (induction ns arbitrary: ps)
  case Nil
  then show ?case by simp
next
  case (Cons n ns)
  from Cons.prems obtain p ps' where p: "FindPlugin n reg = Some p"
    and ps': "find_plugins ns reg = Inr ps'" and ps: "ps = p # ps'"
    by (auto split: option.splits sum.splits)
  from FindPlugin_Some [OF p] Cons.IH [OF ps'] ps show ?case by simp
qed

lemma load_observable_value:
  assumes "set (plugin_names x) \<subseteq> plugin_names_of (registry app)"
  shows "\<exists>ps. observables (load_observable x app) (obs_url x) =
           Some \<lparr>stream_url = obs_url x, stream_lastSeen = lastSeen x, stream_plugins = ps\<rparr>
         \<and> map name ps = plugin_names x \<and> set ps \<subseteq> set (registry app)"
proof -
  from assms find_plugins_Inr [of "plugin_names x" "registry app"]
  obtain ps where ps: "find_plugins (plugin_names x) (registry app) = Inr ps" by blast
  from find_plugins_found [OF ps] ps show ?thesis
    by (simp add: load_observable_def)
qed

lemma load_observable_other:
  assumes "obs_url y = u \<longrightarrow> \<not> set (plugin_names y) \<subseteq> plugin_names_of (registry app)"
  shows "observables (load_observable y app) u = observables app u"
proof (cases "find_plugins (plugin_names y) (registry app)")
  case (Inl n)
  then show ?thesis by (simp add: load_observable_def)
next
  case (Inr ps)
  then have "set (plugin_names y) \<subseteq> plugin_names_of (registry app)"
    using find_plugins_Inr [of "plugin_names y" "registry app"] by auto
  with assms have "obs_url y \<noteq> u" by blast
  with Inr show ?thesis by (simp add: load_observable_def)
qed

lemma fold_load_observable_other:
  assumes "\<forall>y \<in> set ys. obs_url y = u \<longrightarrow> \<not> set (plugin_names y) \<subseteq> plugin_names_of (registry app)"
  shows "observables (fold load_observable ys app) u = observables app u"
  using assms
proof (induction ys arbitrary: app)
  case Nil
  show ?case by simp
next
  case (Cons y ys)
  have "observables (fold load_observable ys (load_observable y app)) u =
      observables (load_observable y app) u"
    using Cons.prems by (intro Cons.IH) (simp add: load_observable_keeps)
  also have "\<dots> = observables app u"
    using Cons.prems by (intro load_observable_other) simp
  finally show ?case by simp
qed

lemma fold_load_observable_value:
  assumes "set (plugin_names x) \<subseteq> plugin_names_of (registry app)"
    and "\<forall>y \<in> set post. obs_url y = obs_url x
           \<longrightarrow> \<not> set (plugin_names y) \<subseteq> plugin_names_of (registry app)"
  shows "\<exists>ps. observables (fold load_observable (pre @ x # post) app) (obs_url x) =
           Some \<lparr>stream_url = obs_url x, stream_lastSeen = lastSeen x, stream_plugins = ps\<rparr>
         \<and> map name ps = plugin_names x \<and> set ps \<subseteq> set (registry app)"
proof -
  define a where "a = fold load_observable pre app"
  have reg: "registry a = registry app"
    using fold_load_observable_keeps [of pre app] by (simp add: a_def)
  from load_observable_value [of x a] assms(1) reg
  obtain ps where ps: "observables (load_observable x a) (obs_url x) =
           Some \<lparr>stream_url = obs_url x, stream_lastSeen = lastSeen x, stream_plugins = ps\<rparr>"
      "map name ps = plugin_names x" "set ps \<subseteq> set (registry app)"
    by auto
  have "observables (fold load_observable post (load_observable x a)) (obs_url x) =
      observables (load_observable x a) (obs_url x)"
    using assms(2) reg by (intro fold_load_observable_other) (simp add: load_observable_keeps)
  with ps show ?thesis by (simp add: a_def)
qed


lemma LoadData_result:
  assumes "FetchPlugins (storage app) = Inr pluginState"
    and "FetchObservables (storage app) = Inr rows"
    and "FetchArchiveRecords (storage app) = Inr records"
    and "FetchArchiveTags (storage app) = Inr tag_rows"
  shows "\<exists>app'. LoadData app = Inr app'
     \<and> storage app' = storage app \<and> files app' = files app \<and> loaded app'
     \<and> listening app' = listening app
     \<and> plugin_names_of (registry app') = plugin_names_of (registry app)
     \<and> set (app_log app) \<subseteq> set (app_log app')
     \<and> observables app' = observables (fold load_observable rows
           (app\<lparr>registry := registry app'\<rparr>))
     \<and> (\<forall>x \<in> set rows.
           \<not> set (plugin_names x) \<subseteq> plugin_names_of (registry app) \<longrightarrow>
           (\<exists>n \<in> set (plugin_names x). n \<notin> plugin_names_of (registry app)
              \<and> missing_plugin_message x n \<in> set (app_log app')))"
proof -
  define app1 where "app1 = fold load_plugin pluginState app"
  define app2 where
    "app2 = app1\<lparr>registry := ReorderPlugins (map plugin_id pluginState) (registry app1)\<rparr>"
  define app3 where "app3 = fold load_observable rows app2"
  define app4 where
    "app4 = app3\<lparr>archive := map (\<lambda>f. \<lparr>archive_filename = f, locked = False, tags = {}\<rparr>) records\<rparr>"
  define app5 where
    "app5 = app4\<lparr>archive := fold add_tag tag_rows (archive app4), loaded := True\<rparr>"
  from fold_load_plugin_keeps [of pluginState app]
  have 1: "plugin_names_of (registry app1) = plugin_names_of (registry app)"
    "observables app1 = observables app" "app_log app1 = app_log app"
    "storage app1 = storage app" "files app1 = files app"
    by (simp_all add: app1_def)
  have "listening (fold load_plugin xs a) = listening a" for xs a
    by (induction xs arbitrary: a) (simp_all add: load_plugin_def split: option.splits)
  then have l1: "listening app1 = listening app" by (simp add: app1_def)
  have 2: "plugin_names_of (registry app2) = plugin_names_of (registry app)"
    "observables app2 = observables app" "app_log app2 = app_log app"
    "storage app2 = storage app" "files app2 = files app" "listening app2 = listening app"
    using 1 l1 by (simp_all add: app2_def plugin_names_of_ReorderPlugins)
  have "listening (fold load_observable xs a) = listening a" for xs a
    by (induction xs arbitrary: a) (simp_all add: load_observable_def split: sum.splits)
  then have l3: "listening app3 = listening app" using 2 by (simp add: app3_def)
  from fold_load_observable_keeps [of rows app2]
  have 3: "storage app3 = storage app" "files app3 = files app" "registry app3 = registry app2"
    "set (app_log app) \<subseteq> set (app_log app3)"
    using 2 by (simp_all add: app3_def)
  have obs_only: "observables (fold load_observable xs a) = observables (fold load_observable xs b)"
    if "registry a = registry b" "observables a = observables b" for xs a b
    using that
  proof (induction xs arbitrary: a b)
    case Nil
    then show ?case by simp
  next
    case (Cons x xs)
    have "registry (load_observable x a) = registry (load_observable x b)"
      "observables (load_observable x a) = observables (load_observable x b)"
      using Cons.prems by (simp_all add: load_observable_def split: sum.splits)
    then have "observables (fold load_observable xs (load_observable x a)) =
        observables (fold load_observable xs (load_observable x b))"
      by (rule Cons.IH)
    then show ?case by simp
  qed
  have o3: "observables app3 = observables (fold load_observable rows (app\<lparr>registry := registry app2\<rparr>))"
    unfolding app3_def using 2 by (intro obs_only) simp_all
  have m3: "\<exists>n \<in> set (plugin_names x). n \<notin> plugin_names_of (registry app)
            \<and> missing_plugin_message x n \<in> set (app_log app3)"
    if "x \<in> set rows" and "\<not> set (plugin_names x) \<subseteq> plugin_names_of (registry app)" for x
    using fold_load_observable_logs [of x rows app2] that 2 by (simp add: app3_def)
  have 4: "storage app4 = storage app" "files app4 = files app" "app_log app4 = app_log app3"
    "observables app4 = observables app3" "listening app4 = listening app"
    "registry app4 = registry app2"
    using 3 l3 by (simp_all add: app4_def)
  have st1: "storage (fold load_plugin xs a) = storage a" for xs a
    using fold_load_plugin_keeps [of xs a] by simp
  have st3: "storage (fold load_observable xs a) = storage a" for xs a
    using fold_load_observable_keeps [of xs a] by simp
  have L: "LoadData app = Inr app5"
    by (simp add: LoadData_def Let_def assms st1 st3 app1_def app2_def app3_def app4_def
        app5_def)
  have 5: "storage app5 = storage app" "files app5 = files app" "loaded app5"
    "listening app5 = listening app" "app_log app5 = app_log app3"
    "observables app5 = observables app3" "registry app5 = registry app2"
    using 4 by (simp_all add: app5_def)
  show ?thesis
    using L 5 2 3 o3 m3 by simp
qed



text \<open>
  C4. At start-up, if the required data directory is absent, or if the preparation of the
  file system (creating the archive and thumbnail folders) throws, the process exits with a
  non-zero exit code, and neither has the state been loaded nor does the server listen: the
  plugins, the observables and the archive are as they were.
\<close>

theorem C4_startup_failure_exits:
  "\<not> IsDataMounted C app \<or> (\<exists>e. PrepareFileSystem C (files app) = Inl e) \<longrightarrow>
     (\<exists>code app'. Run K C app = Exit code app' \<and> code \<noteq> 0
        \<and> registry app' = registry app \<and> observables app' = observables app
        \<and> archive app' = archive app \<and> loaded app' = loaded app
        \<and> listening app' = listening app)"
proof (intro impI)
  assume fail: "\<not> IsDataMounted C app \<or> (\<exists>e. PrepareFileSystem C (files app) = Inl e)"
  show "\<exists>code app'. Run K C app = Exit code app' \<and> code \<noteq> 0
        \<and> registry app' = registry app \<and> observables app' = observables app
        \<and> archive app' = archive app \<and> loaded app' = loaded app
        \<and> listening app' = listening app"
  proof (cases "IsDataMounted C app")
    case False
    then show ?thesis by (simp add: Run_def)
  next
    case True
    with fail obtain msg where "PrepareFileSystem C (files app) = Inl (Exn msg)"
      by (metis exn.exhaust)
    with True show ?thesis
      by (auto simp: Run_def uncaught_def InitializeDb_def
          split: sum.splits option.splits if_splits)
  qed
qed

theorem C4_startup_failure_witness:
  "(case Run \<lparr>Sqlite3 = \<lambda>path. Inr \<lparr>IsInitialized = Inr True, FetchPlugins = Inr [], FetchObservables = Inr [],
          FetchArchiveRecords = Inr [], FetchArchiveTags = Inr []\<rparr>,
        Initialize = \<lambda>names db. Inr db, new_Settings_SqliteWriter = None,
        new_NotificationCenter = None, start_services = None\<rparr> \<lparr>DATA_FOLDER = ''data'', ARCHIVE_FOLDER = ''data/archive'',
        THUMBNAIL_FOLDER = ''data/archive/thumbnail'', DB_LOCATION = ''data/db.sqlite3''\<rparr> \<lparr>files = \<lparr>entries = [''data''], refused = [''data/archive'']\<rparr>,
        storage = \<lparr>IsInitialized = Inr True, FetchPlugins = Inr [], FetchObservables = Inr [],
          FetchArchiveRecords = Inr [], FetchArchiveTags = Inr []\<rparr>,
        registry = [], linkedStreams = [], observables = Map.empty, archive = [], app_log = [],
        loaded = False, listening = False\<rparr>
    of Exit code app' \<Rightarrow> code \<noteq> 0 \<and> \<not> loaded app' \<and> \<not> listening app'
     | Serving app' \<Rightarrow> False)"
proof -
  let ?C = "\<lparr>DATA_FOLDER = ''data'', ARCHIVE_FOLDER = ''data/archive'',
        THUMBNAIL_FOLDER = ''data/archive/thumbnail'', DB_LOCATION = ''data/db.sqlite3''\<rparr>"
  let ?app = "\<lparr>files = \<lparr>entries = [''data''], refused = [''data/archive'']\<rparr>,
        storage = \<lparr>IsInitialized = Inr True, FetchPlugins = Inr [], FetchObservables = Inr [],
          FetchArchiveRecords = Inr [], FetchArchiveTags = Inr []\<rparr>,
        registry = [], linkedStreams = [], observables = Map.empty, archive = [], app_log = [],
        loaded = False, listening = False\<rparr>"
  let ?K = "\<lparr>Sqlite3 = \<lambda>path. Inr \<lparr>IsInitialized = Inr True, FetchPlugins = Inr [], FetchObservables = Inr [],
          FetchArchiveRecords = Inr [], FetchArchiveTags = Inr []\<rparr>,
        Initialize = \<lambda>names db. Inr db, new_Settings_SqliteWriter = None,
        new_NotificationCenter = None, start_services = None\<rparr>"
  have "PrepareFileSystem ?C (files ?app) = Inl (Exn ''EACCES'')"
    by (simp add: PrepareFileSystem_def existsSync_def mkdirSync_def)
  then have "\<not> IsDataMounted ?C ?app \<or> (\<exists>e. PrepareFileSystem ?C (files ?app) = Inl e)"
    by blast
  with C4_startup_failure_exits [of ?C ?app ?K]
  obtain code app' where "Run ?K ?C ?app = Exit code app'" "code \<noteq> 0"
    "loaded app' = loaded ?app" "listening app' = listening ?app"
    by blast
  then show ?thesis by simp
qed

text \<open>
  C5 (as amended). At start-up with the data directory present, the file system prepared
  and every call on the database and the other collaborators returning, a database that is
  not initialised does not end the process: it is logged and initialised with the names of
  the registered plugins; the state is loaded and the server listens. A persisted
  observable that names a plugin absent from the registry is logged and skipped, so that
  it writes nothing to the observables; every other persisted observable is loaded with its
  url, its last-seen time and the registered plugins of the names it gives.
\<close>

theorem C5_startup_continues:
  assumes "IsDataMounted C app"
    and "Sqlite3 K (DB_LOCATION C) = Inr db"
    and "IsInitialized db = Inr initialized"
    and "if initialized then db1 = db else Initialize K (map name (registry app)) db = Inr db1"
    and "new_Settings_SqliteWriter K = None"
    and "PrepareFileSystem C (files app) = Inr fs"
    and "new_NotificationCenter K = None"
    and "FetchPlugins db1 = Inr pluginState"
    and "FetchObservables db1 = Inr rows"
    and "FetchArchiveRecords db1 = Inr records"
    and "FetchArchiveTags db1 = Inr tag_rows"
    and "start_services K = None"
  shows "\<exists>app'. Run K C app = Serving app' \<and> listening app' \<and> loaded app'
     \<and> storage app' = db1 \<and> files app' = fs
     \<and> (\<not> initialized \<longrightarrow> database_message \<in> set (app_log app'))
     \<and> plugin_names_of (registry app') = plugin_names_of (registry app)
     \<and> dom (observables app') =
         dom (observables app) \<union> {obs_url x | x. x \<in> set rows \<and> loadable (registry app) x}
     \<and> (\<forall>pre x post. rows = pre @ x # post \<and> loadable (registry app) x
           \<and> (\<forall>y \<in> set post. obs_url y = obs_url x \<longrightarrow> \<not> loadable (registry app) y) \<longrightarrow>
           (\<exists>ps. observables app' (obs_url x) =
                   Some \<lparr>stream_url = obs_url x, stream_lastSeen = lastSeen x, stream_plugins = ps\<rparr>
                 \<and> map name ps = plugin_names x \<and> set ps \<subseteq> set (registry app')))
     \<and> (\<forall>u. (\<forall>x \<in> set rows. obs_url x = u \<longrightarrow> \<not> loadable (registry app) x) \<longrightarrow>
           observables app' u = observables app u)
     \<and> (\<forall>x \<in> set rows. \<not> loadable (registry app) x \<longrightarrow>
           (\<exists>n \<in> set (plugin_names x). n \<notin> plugin_names_of (registry app)
              \<and> missing_plugin_message x n \<in> set (app_log app')))"
proof -
  define app1 where "app1 =
     (if initialized then app\<lparr>storage := db\<rparr>
      else app\<lparr>storage := db1, app_log := app_log app @ [database_message]\<rparr>)"
  have init: "(if \<not> initialized
               then InitializeDb K (app\<lparr>storage := db, app_log := app_log app
                      @ [''Database doesn'' @ [CHR 0x27]
                         @ ''t initialized or malformed. Initialization...'']\<rparr>)
               else Inr (app\<lparr>storage := db\<rparr>)) = Inr app1"
    using assms(4) by (simp add: app1_def InitializeDb_def database_message_def)
  have a1: "files app1 = files app" "registry app1 = registry app"
    "observables app1 = observables app" "storage app1 = db1"
    "\<not> initialized \<longrightarrow> database_message \<in> set (app_log app1)"
    using assms(4) by (simp_all add: app1_def)
  define a where "a = app1\<lparr>files := fs\<rparr>"
  have a: "files a = fs" "registry a = registry app" "observables a = observables app"
    "storage a = db1" "app_log a = app_log app1" "listening a = listening app1"
    using a1 by (simp_all add: a_def)
  from LoadData_result [of a pluginState rows records tag_rows] assms(8-11) a(4)
  obtain app2 where L: "LoadData a = Inr app2"
    and s2: "storage app2 = storage a" "files app2 = files a" "loaded app2"
    and n2: "plugin_names_of (registry app2) = plugin_names_of (registry a)"
    and l2: "set (app_log a) \<subseteq> set (app_log app2)"
    and o2: "observables app2 = observables (fold load_observable rows (a\<lparr>registry := registry app2\<rparr>))"
    and m2: "\<forall>x \<in> set rows.
           \<not> set (plugin_names x) \<subseteq> plugin_names_of (registry a) \<longrightarrow>
           (\<exists>n \<in> set (plugin_names x). n \<notin> plugin_names_of (registry a)
              \<and> missing_plugin_message x n \<in> set (app_log app2))"
    by auto
  define b where "b = a\<lparr>registry := registry app2\<rparr>"
  have b: "registry b = registry app2" "observables b = observables app"
    "plugin_names_of (registry b) = plugin_names_of (registry app)"
    using a n2 by (simp_all add: b_def)
  have run: "Run K C app = Serving (app2\<lparr>listening := True\<rparr>)"
    using assms(1,2,3,5,6,7,12) a1(1) L
    by (simp add: Run_def init a_def [symmetric])
  have d: "dom (observables app2) =
         dom (observables app) \<union> {obs_url x | x. x \<in> set rows \<and> loadable (registry app) x}"
    using fold_load_observable_dom [of rows b] b
    by (simp add: o2 b_def [symmetric] loadable_def)
  have v: "\<exists>ps. observables app2 (obs_url x) =
                   Some \<lparr>stream_url = obs_url x, stream_lastSeen = lastSeen x, stream_plugins = ps\<rparr>
                 \<and> map name ps = plugin_names x \<and> set ps \<subseteq> set (registry app2)"
    if "rows = pre @ x # post" "loadable (registry app) x"
      "\<forall>y \<in> set post. obs_url y = obs_url x \<longrightarrow> \<not> loadable (registry app) y" for pre x post
    using fold_load_observable_value [of x b post pre] that b
    by (simp add: o2 b_def [symmetric] loadable_def)
  have k: "observables app2 u = observables app u"
    if "\<forall>x \<in> set rows. obs_url x = u \<longrightarrow> \<not> loadable (registry app) x" for u
    using fold_load_observable_other [of rows u b] that b
    by (simp add: o2 b_def [symmetric] loadable_def)
  have m: "\<exists>n \<in> set (plugin_names x). n \<notin> plugin_names_of (registry app)
              \<and> missing_plugin_message x n \<in> set (app_log app2)"
    if "x \<in> set rows" "\<not> loadable (registry app) x" for x
    using m2 that a(2) by (simp add: loadable_def)
  have dbm: "\<not> initialized \<longrightarrow> database_message \<in> set (app_log app2)"
    using a1(5) a(5) l2 by auto
  have "listening (app2\<lparr>listening := True\<rparr>) \<and> loaded (app2\<lparr>listening := True\<rparr>)
     \<and> storage (app2\<lparr>listening := True\<rparr>) = db1 \<and> files (app2\<lparr>listening := True\<rparr>) = fs
     \<and> (\<not> initialized \<longrightarrow> database_message \<in> set (app_log (app2\<lparr>listening := True\<rparr>)))
     \<and> plugin_names_of (registry (app2\<lparr>listening := True\<rparr>)) = plugin_names_of (registry app)"
    using s2 a n2 dbm by simp
  moreover have "dom (observables (app2\<lparr>listening := True\<rparr>)) =
         dom (observables app) \<union> {obs_url x | x. x \<in> set rows \<and> loadable (registry app) x}"
    using d by simp
  moreover have "\<forall>pre x post. rows = pre @ x # post \<and> loadable (registry app) x
           \<and> (\<forall>y \<in> set post. obs_url y = obs_url x \<longrightarrow> \<not> loadable (registry app) y) \<longrightarrow>
           (\<exists>ps. observables (app2\<lparr>listening := True\<rparr>) (obs_url x) =
                   Some \<lparr>stream_url = obs_url x, stream_lastSeen = lastSeen x, stream_plugins = ps\<rparr>
                 \<and> map name ps = plugin_names x
                 \<and> set ps \<subseteq> set (registry (app2\<lparr>listening := True\<rparr>)))"
    using v by simp
  moreover have "\<forall>u. (\<forall>x \<in> set rows. obs_url x = u \<longrightarrow> \<not> loadable (registry app) x) \<longrightarrow>
           observables (app2\<lparr>listening := True\<rparr>) u = observables app u"
    using k by simp
  moreover have "\<forall>x \<in> set rows. \<not> loadable (registry app) x \<longrightarrow>
           (\<exists>n \<in> set (plugin_names x). n \<notin> plugin_names_of (registry app)
              \<and> missing_plugin_message x n \<in> set (app_log (app2\<lparr>listening := True\<rparr>)))"
    using m by simp
  ultimately show ?thesis
    unfolding run by blast
qed

theorem C5_startup_continues_witness:
  "(case Run \<lparr>Sqlite3 = \<lambda>path. Inr \<lparr>IsInitialized = Inr False, FetchPlugins = Inr [],
          FetchObservables = Inr
            [\<lparr>obs_url = ''https://x.y/bob'', lastSeen = 7, plugin_names = [''ghost'']\<rparr>,
             \<lparr>obs_url = ''https://x.y/amy'', lastSeen = 8, plugin_names = [''dummy'']\<rparr>],
          FetchArchiveRecords = Inr [], FetchArchiveTags = Inr []\<rparr>,
        Initialize = \<lambda>names db. Inr (db\<lparr>IsInitialized := Inr True\<rparr>),
        new_Settings_SqliteWriter = None, new_NotificationCenter = None,
        start_services = None\<rparr> \<lparr>DATA_FOLDER = ''data'', ARCHIVE_FOLDER = ''data/archive'',
        THUMBNAIL_FOLDER = ''data/archive/thumbnail'', DB_LOCATION = ''data/db.sqlite3''\<rparr> \<lparr>files = \<lparr>entries = [''data''], refused = []\<rparr>,
        storage = \<lparr>IsInitialized = Inr False, FetchPlugins = Inr [],
          FetchObservables = Inr
            [\<lparr>obs_url = ''https://x.y/bob'', lastSeen = 7, plugin_names = [''ghost'']\<rparr>,
             \<lparr>obs_url = ''https://x.y/amy'', lastSeen = 8, plugin_names = [''dummy'']\<rparr>],
          FetchArchiveRecords = Inr [], FetchArchiveTags = Inr []\<rparr>,
        registry = [\<lparr>name = ''dummy'', enabled = True, plugin_id = 0\<rparr>], linkedStreams = [],
        observables = Map.empty, archive = [], app_log = [], loaded = False, listening = False\<rparr>
    of Exit code app' \<Rightarrow> False
     | Serving app' \<Rightarrow> listening app' \<and> loaded app'
         \<and> IsInitialized (storage app') = Inr True
         \<and> database_message \<in> set (app_log app')
         \<and> dom (observables app') = {''https://x.y/amy''})"
proof -
  let ?C = "\<lparr>DATA_FOLDER = ''data'', ARCHIVE_FOLDER = ''data/archive'',
        THUMBNAIL_FOLDER = ''data/archive/thumbnail'', DB_LOCATION = ''data/db.sqlite3''\<rparr>"
  let ?app = "\<lparr>files = \<lparr>entries = [''data''], refused = []\<rparr>,
        storage = \<lparr>IsInitialized = Inr False, FetchPlugins = Inr [],
          FetchObservables = Inr
            [\<lparr>obs_url = ''https://x.y/bob'', lastSeen = 7, plugin_names = [''ghost'']\<rparr>,
             \<lparr>obs_url = ''https://x.y/amy'', lastSeen = 8, plugin_names = [''dummy'']\<rparr>],
          FetchArchiveRecords = Inr [], FetchArchiveTags = Inr []\<rparr>,
        registry = [\<lparr>name = ''dummy'', enabled = True, plugin_id = 0\<rparr>], linkedStreams = [],
        observables = Map.empty, archive = [], app_log = [], loaded = False, listening = False\<rparr>"
  let ?K = "\<lparr>Sqlite3 = \<lambda>path. Inr \<lparr>IsInitialized = Inr False, FetchPlugins = Inr [],
          FetchObservables = Inr
            [\<lparr>obs_url = ''https://x.y/bob'', lastSeen = 7, plugin_names = [''ghost'']\<rparr>,
             \<lparr>obs_url = ''https://x.y/amy'', lastSeen = 8, plugin_names = [''dummy'']\<rparr>],
          FetchArchiveRecords = Inr [], FetchArchiveTags = Inr []\<rparr>,
        Initialize = \<lambda>names db. Inr (db\<lparr>IsInitialized := Inr True\<rparr>),
        new_Settings_SqliteWriter = None, new_NotificationCenter = None,
        start_services = None\<rparr>"
  let ?db = "\<lparr>IsInitialized = Inr False, FetchPlugins = Inr [],
          FetchObservables = Inr
            [\<lparr>obs_url = ''https://x.y/bob'', lastSeen = 7, plugin_names = [''ghost'']\<rparr>,
             \<lparr>obs_url = ''https://x.y/amy'', lastSeen = 8, plugin_names = [''dummy'']\<rparr>],
          FetchArchiveRecords = Inr [], FetchArchiveTags = Inr []\<rparr>"
  let ?rows = "[\<lparr>obs_url = ''https://x.y/bob'', lastSeen = 7, plugin_names = [''ghost'']\<rparr>,
             \<lparr>obs_url = ''https://x.y/amy'', lastSeen = 8, plugin_names = [''dummy'']\<rparr>]"
  have 1: "IsDataMounted ?C ?app"
    by (simp add: IsDataMounted_def existsSync_def)
  have 2: "Sqlite3 ?K (DB_LOCATION ?C) = Inr ?db"
    by simp
  have 3: "IsInitialized ?db = Inr False"
    by simp
  have 4: "if False then ?db\<lparr>IsInitialized := Inr True\<rparr> = ?db
      else Initialize ?K (map name (registry ?app)) ?db = Inr (?db\<lparr>IsInitialized := Inr True\<rparr>)"
    by simp
  have 5: "new_Settings_SqliteWriter ?K = None" "new_NotificationCenter ?K = None"
    "start_services ?K = None"
    by simp_all
  have 6: "PrepareFileSystem ?C (files ?app) =
      Inr \<lparr>entries = [''data/archive/thumbnail'', ''data/archive'', ''data''], refused = []\<rparr>"
    by (simp add: PrepareFileSystem_def existsSync_def mkdirSync_def)
  have 7: "FetchPlugins (?db\<lparr>IsInitialized := Inr True\<rparr>) = Inr []"
    "FetchObservables (?db\<lparr>IsInitialized := Inr True\<rparr>) = Inr ?rows"
    "FetchArchiveRecords (?db\<lparr>IsInitialized := Inr True\<rparr>) = Inr []"
    "FetchArchiveTags (?db\<lparr>IsInitialized := Inr True\<rparr>) = Inr []"
    by simp_all
  from C5_startup_continues [of ?C ?app ?K ?db False "?db\<lparr>IsInitialized := Inr True\<rparr>" _
      "[]" ?rows "[]" "[]", OF 1 2 3 4 5(1) 6 5(2) 7 5(3)]
  obtain app' where run: "Run ?K ?C ?app = Serving app'" and "listening app'" "loaded app'"
    and st: "storage app' = ?db\<lparr>IsInitialized := Inr True\<rparr>"
    and msg: "database_message \<in> set (app_log app')"
    and d: "dom (observables app') =
         dom (observables ?app) \<union> {obs_url x | x. x \<in> set ?rows \<and> loadable (registry ?app) x}"
    by auto
  have gen: "{obs_url x | x. x \<in> set rs \<and> Q x} = set (map obs_url (filter Q rs))" for rs Q
    by auto
  from d have "dom (observables app') =
      dom (observables ?app) \<union> set (map obs_url (filter (loadable (registry ?app)) ?rows))"
    by (simp only: gen)
  then have "dom (observables app') = {''https://x.y/amy''}"
    by (simp add: loadable_def plugin_names_of_def)
  with run \<open>listening app'\<close> \<open>loaded app'\<close> st msg show ?thesis by simp
qed

text \<open>
  The claim as stated fails: with a database that is not initialised and a persisted
  observable that names the plugin \<open>ghost\<close>, which is not registered, the process does not
  exit; it initialises the database, logs and skips the observable, loads the other one and
  listens.
\<close>

theorem C5_startup_counterexample:
  "(case Run \<lparr>Sqlite3 = \<lambda>path. Inr \<lparr>IsInitialized = Inr False, FetchPlugins = Inr [],
          FetchObservables = Inr
            [\<lparr>obs_url = ''https://x.y/bob'', lastSeen = 7, plugin_names = [''ghost'']\<rparr>,
             \<lparr>obs_url = ''https://x.y/amy'', lastSeen = 8, plugin_names = [''dummy'']\<rparr>],
          FetchArchiveRecords = Inr [], FetchArchiveTags = Inr []\<rparr>,
        Initialize = \<lambda>names db. Inr (db\<lparr>IsInitialized := Inr True\<rparr>),
        new_Settings_SqliteWriter = None, new_NotificationCenter = None,
        start_services = None\<rparr> \<lparr>DATA_FOLDER = ''data'', ARCHIVE_FOLDER = ''data/archive'',
        THUMBNAIL_FOLDER = ''data/archive/thumbnail'', DB_LOCATION = ''data/db.sqlite3''\<rparr> \<lparr>files = \<lparr>entries = [''data''], refused = []\<rparr>,
        storage = \<lparr>IsInitialized = Inr False, FetchPlugins = Inr [],
          FetchObservables = Inr
            [\<lparr>obs_url = ''https://x.y/bob'', lastSeen = 7, plugin_names = [''ghost'']\<rparr>,
             \<lparr>obs_url = ''https://x.y/amy'', lastSeen = 8, plugin_names = [''dummy'']\<rparr>],
          FetchArchiveRecords = Inr [], FetchArchiveTags = Inr []\<rparr>,
        registry = [\<lparr>name = ''dummy'', enabled = True, plugin_id = 0\<rparr>], linkedStreams = [],
        observables = Map.empty, archive = [], app_log = [], loaded = False, listening = False\<rparr>
    of Exit code app' \<Rightarrow> False
     | Serving app' \<Rightarrow> listening app'
         \<and> observables app' ''https://x.y/bob'' = None
         \<and> observables app' ''https://x.y/amy'' =
             Some \<lparr>stream_url = ''https://x.y/amy'', stream_lastSeen = 8,
                   stream_plugins = [\<lparr>name = ''dummy'', enabled = True, plugin_id = 0\<rparr>]\<rparr>
         \<and> app_log app' =
             [''Database doesn'' @ [CHR 0x27] @ ''t initialized or malformed. Initialization...'',
              ''https://x.y/bob has missing plugin '' @ [CHR 0x27] @ ''ghost'' @ [CHR 0x27]])"
  by (simp add: Run_def IsDataMounted_def existsSync_def InitializeDb_def PrepareFileSystem_def
      mkdirSync_def LoadData_def load_observable_def FindPlugin_def ReorderPlugins_def)

end
